theory Spec2Isabelle
  imports Complex_Main
begin

section \<open>Tile store, kernels and scheduled invocations\<close>

text \<open>
  The tiled algorithms of \<^verbatim>\<open>tiled_algorithms_cpu.hpp\<close> work on vectors of
  \<^verbatim>\<open>hpx::shared_future<std::vector<double>>\<close>. A statement
  \<^verbatim>\<open>X[w] = hpx::dataflow(unwrapping(&kernel), A[r1], B[r2], N)\<close>
  schedules one kernel invocation that waits for the futures it is given, and
  stores the future of the result in slot \<^verbatim>\<open>w\<close>, superseding the one
  that was there. The model keeps both sides of that statement: the value the
  new future will hold (the kernel applied to the values of the futures read)
  and the invocation that was issued (which kernel, which slots it reads,
  which slot receives the result), in issue order.

  The vectors an algorithm is handed are distinct objects; they are named by
  \<open>array\<close>. Indices are natural numbers: the grid of \<open>n_tiles * n_tiles\<close>
  futures exists in memory, so no index computation of the source wraps around.
  The tile type \<open>'t\<close> stands for \<^verbatim>\<open>std::vector<double>\<close>; the kernels of
  \<^verbatim>\<open>mkl_adapter.hpp\<close> are not part of the sources at hand and are taken as
  parameters (record \<open>mkl\<close>).
\<close>

datatype array = Ft_tiles | Ft_rhs | Ft_vector | Ft_CC_tiles | Ft_tCC_tiles | Ft_K_tiles

type_synonym slot = "array \<times> nat"

datatype kernel =
    Mkl_potrf | Mkl_trsm | Mkl_syrk | Mkl_gemm
  | Mkl_trsv_l | Mkl_gemv_l | Mkl_trsv_u | Mkl_gemv_u
  | Mkl_gemv_p | Mkl_gemm_uncertainty_matrix

datatype call = Call (kern: kernel) (reads: "slot list") (writes: slot)

record 't sched =
  store :: "array \<Rightarrow> 't list"
  issued :: "call list"

record 't mkl =
  mkl_potrf :: "'t \<Rightarrow> nat \<Rightarrow> 't"
  mkl_trsm :: "'t \<Rightarrow> 't \<Rightarrow> nat \<Rightarrow> 't"
  mkl_syrk :: "'t \<Rightarrow> 't \<Rightarrow> nat \<Rightarrow> 't"
  mkl_gemm :: "'t \<Rightarrow> 't \<Rightarrow> 't \<Rightarrow> nat \<Rightarrow> 't"
  mkl_trsv_l :: "'t \<Rightarrow> 't \<Rightarrow> nat \<Rightarrow> 't"
  mkl_gemv_l :: "'t \<Rightarrow> 't \<Rightarrow> 't \<Rightarrow> nat \<Rightarrow> 't"
  mkl_trsv_u :: "'t \<Rightarrow> 't \<Rightarrow> nat \<Rightarrow> 't"
  mkl_gemv_u :: "'t \<Rightarrow> 't \<Rightarrow> 't \<Rightarrow> nat \<Rightarrow> 't"
  mkl_gemv_p :: "'t \<Rightarrow> 't \<Rightarrow> 't \<Rightarrow> nat \<Rightarrow> nat \<Rightarrow> 't"
  mkl_gemm_uncertainty_matrix :: "'t \<Rightarrow> 't \<Rightarrow> 't \<Rightarrow> nat \<Rightarrow> nat \<Rightarrow> 't"

definition rd :: "'t sched \<Rightarrow> slot \<Rightarrow> 't" where
  "rd s p = store s (fst p) ! snd p"

definition assign :: "slot \<Rightarrow> kernel \<Rightarrow> slot list \<Rightarrow> 't \<Rightarrow> 't sched \<Rightarrow> 't sched" where
  "assign w k rs v s =
     s\<lparr>store := (store s)(fst w := (store s (fst w))[snd w := v]),
       issued := issued s @ [Call k rs w]\<rparr>"

text \<open>\<^verbatim>\<open>X[w] = hpx::dataflow(f, A[r1], N)\<close> and its two- and three-future forms.\<close>

definition dataflow1 :: "kernel \<Rightarrow> ('t \<Rightarrow> 't) \<Rightarrow> slot \<Rightarrow> slot \<Rightarrow> 't sched \<Rightarrow> 't sched" where
  "dataflow1 k f r1 w s = assign w k [r1] (f (rd s r1)) s"

definition dataflow2 ::
  "kernel \<Rightarrow> ('t \<Rightarrow> 't \<Rightarrow> 't) \<Rightarrow> slot \<Rightarrow> slot \<Rightarrow> slot \<Rightarrow> 't sched \<Rightarrow> 't sched" where
  "dataflow2 k f r1 r2 w s = assign w k [r1, r2] (f (rd s r1) (rd s r2)) s"

definition dataflow3 ::
  "kernel \<Rightarrow> ('t \<Rightarrow> 't \<Rightarrow> 't \<Rightarrow> 't) \<Rightarrow> slot \<Rightarrow> slot \<Rightarrow> slot \<Rightarrow> slot \<Rightarrow> 't sched \<Rightarrow> 't sched" where
  "dataflow3 k f r1 r2 r3 w s = assign w k [r1, r2, r3] (f (rd s r1) (rd s r2) (rd s r3)) s"

subsection \<open>Counting loops\<close>

text \<open>
  \<^verbatim>\<open>for (std::size_t i = lo; i < hi; i++) body\<close>: the body neither changes
  \<open>i\<close> nor the bound.
\<close>

function for_up :: "nat \<Rightarrow> nat \<Rightarrow> (nat \<Rightarrow> 's \<Rightarrow> 's) \<Rightarrow> 's \<Rightarrow> 's" where
  "for_up i hi body s = (if i < hi then for_up (Suc i) hi body (body i s) else s)"
  by pat_completeness auto
termination
  by (relation "measure (\<lambda>(i, hi, body, s). hi - i)") auto

declare for_up.simps [simp del]

text \<open>
  \<^verbatim>\<open>for (int k = start; k >= 0; k--) body\<close>: the loop variable is a signed
  \<^verbatim>\<open>int\<close>, so the loop ends when it reaches \<open>-1\<close>; the body uses it as an
  index.
\<close>

function for_down :: "int \<Rightarrow> (nat \<Rightarrow> 's \<Rightarrow> 's) \<Rightarrow> 's \<Rightarrow> 's" where
  "for_down k body s = (if 0 \<le> k then for_down (k - 1) body (body (nat k) s) else s)"
  by pat_completeness auto
termination
  by (relation "measure (\<lambda>(k, body, s). nat (k + 1))") auto

declare for_down.simps [simp del]

section \<open>Right-looking tiled Cholesky\<close>

definition tile :: "nat \<Rightarrow> nat \<Rightarrow> nat \<Rightarrow> slot" where
  "tile n_tiles i j = (Ft_tiles, i * n_tiles + j)"

definition right_looking_cholesky_tiled_mkl ::
  "'t mkl \<Rightarrow> nat \<Rightarrow> nat \<Rightarrow> 't sched \<Rightarrow> 't sched" where
  "right_looking_cholesky_tiled_mkl K N n_tiles =
     for_up 0 n_tiles (\<lambda>k s0.
       let s1 = dataflow1 Mkl_potrf (\<lambda>A. mkl_potrf K A N)
                  (tile n_tiles k k) (tile n_tiles k k) s0;
           s2 = for_up (k + 1) n_tiles (\<lambda>m.
                  dataflow2 Mkl_trsm (\<lambda>L A. mkl_trsm K L A N)
                    (tile n_tiles k k) (tile n_tiles m k) (tile n_tiles m k)) s1
       in for_up (k + 1) n_tiles (\<lambda>m s3.
            for_up (k + 1) m (\<lambda>n.
              dataflow3 Mkl_gemm (\<lambda>A B C. mkl_gemm K A B C N)
                (tile n_tiles m k) (tile n_tiles n k) (tile n_tiles m n) (tile n_tiles m n))
              (dataflow2 Mkl_syrk (\<lambda>A B. mkl_syrk K A B N)
                (tile n_tiles m m) (tile n_tiles m k) (tile n_tiles m m) s3)) s2)"

text \<open>The invocation pattern the specification describes, stage by stage.\<close>

definition potrf_call :: "nat \<Rightarrow> nat \<Rightarrow> call" where
  "potrf_call n k = Call Mkl_potrf [tile n k k] (tile n k k)"

definition trsm_call :: "nat \<Rightarrow> nat \<Rightarrow> nat \<Rightarrow> call" where
  "trsm_call n k m = Call Mkl_trsm [tile n k k, tile n m k] (tile n m k)"

definition syrk_call :: "nat \<Rightarrow> nat \<Rightarrow> nat \<Rightarrow> call" where
  "syrk_call n k m = Call Mkl_syrk [tile n m m, tile n m k] (tile n m m)"

definition gemm_call :: "nat \<Rightarrow> nat \<Rightarrow> nat \<Rightarrow> nat \<Rightarrow> call" where
  "gemm_call n k m j = Call Mkl_gemm [tile n m k, tile n j k, tile n m j] (tile n m j)"

definition panel_calls :: "nat \<Rightarrow> nat \<Rightarrow> call list" where
  "panel_calls n k = map (trsm_call n k) [k + 1..<n]"

definition update_row :: "nat \<Rightarrow> nat \<Rightarrow> nat \<Rightarrow> call list" where
  "update_row n k m = syrk_call n k m # map (gemm_call n k m) [k + 1..<m]"

definition update_calls :: "nat \<Rightarrow> nat \<Rightarrow> call list" where
  "update_calls n k = concat (map (update_row n k) [k + 1..<n])"

definition stage_calls :: "nat \<Rightarrow> nat \<Rightarrow> call list" where
  "stage_calls n k = potrf_call n k # panel_calls n k @ update_calls n k"

definition cholesky_calls :: "nat \<Rightarrow> call list" where
  "cholesky_calls n = concat (map (stage_calls n) [0..<n])"

text \<open>
  Two invocations are independent when neither writes a slot the other reads
  or writes; a list of invocations is pairwise independent when any two of its
  entries (at different positions) are.
\<close>

definition conflicts :: "call \<Rightarrow> call \<Rightarrow> bool" where
  "conflicts c d \<longleftrightarrow>
     writes c = writes d \<or> writes c \<in> set (reads d) \<or> writes d \<in> set (reads c)"

definition independent :: "call \<Rightarrow> call \<Rightarrow> bool" where
  "independent c d \<longleftrightarrow> \<not> conflicts c d"

fun pairwise_independent :: "call list \<Rightarrow> bool" where
  "pairwise_independent [] = True"
| "pairwise_independent (c # cs) = (list_all (independent c) cs \<and> pairwise_independent cs)"

section \<open>Tiled triangular solves\<close>

text \<open>
  \<^verbatim>\<open>forward_solve_tiled\<close> and \<^verbatim>\<open>backward_solve_tiled\<close>. The backward loops
  count a signed \<^verbatim>\<open>int\<close> down from \<^verbatim>\<open>n_tiles - 1\<close> and from \<^verbatim>\<open>k - 1\<close>. The
  start \<^verbatim>\<open>n_tiles - 1\<close> is computed in \<^verbatim>\<open>std::size_t\<close> and converted to
  \<^verbatim>\<open>int\<close>: that is \<open>-1\<close> for no tiles and the integer \<open>n_tiles - 1\<close> for every
  tile count below \<open>2\<^sup>3\<^sup>1\<close>, which a grid of \<open>n_tiles * n_tiles\<close> futures in memory
  does not reach.
\<close>

definition forward_solve_tiled :: "'t mkl \<Rightarrow> nat \<Rightarrow> nat \<Rightarrow> 't sched \<Rightarrow> 't sched" where
  "forward_solve_tiled K N n_tiles =
     for_up 0 n_tiles (\<lambda>k s0.
       for_up (k + 1) n_tiles (\<lambda>m.
         dataflow3 Mkl_gemv_l (\<lambda>A a b. mkl_gemv_l K A a b N)
           (tile n_tiles m k) (Ft_rhs, k) (Ft_rhs, m) (Ft_rhs, m))
         (dataflow2 Mkl_trsv_l (\<lambda>L a. mkl_trsv_l K L a N)
           (tile n_tiles k k) (Ft_rhs, k) (Ft_rhs, k) s0))"

definition backward_solve_tiled :: "'t mkl \<Rightarrow> nat \<Rightarrow> nat \<Rightarrow> 't sched \<Rightarrow> 't sched" where
  "backward_solve_tiled K N n_tiles =
     for_down (int n_tiles - 1) (\<lambda>k s0.
       for_down (int k - 1) (\<lambda>m.
         dataflow3 Mkl_gemv_u (\<lambda>A a b. mkl_gemv_u K A a b N)
           (tile n_tiles k m) (Ft_rhs, k) (Ft_rhs, m) (Ft_rhs, m))
         (dataflow2 Mkl_trsv_u (\<lambda>L a. mkl_trsv_u K L a N)
           (tile n_tiles k k) (Ft_rhs, k) (Ft_rhs, k) s0))"

text \<open>The two invocation patterns, in the order of the specification.\<close>

definition forward_calls :: "nat \<Rightarrow> call list" where
  "forward_calls n =
     concat (map (\<lambda>k.
       Call Mkl_trsv_l [tile n k k, (Ft_rhs, k)] (Ft_rhs, k)
       # map (\<lambda>m. Call Mkl_gemv_l [tile n m k, (Ft_rhs, k), (Ft_rhs, m)] (Ft_rhs, m))
           [k + 1..<n]) [0..<n])"

definition backward_calls :: "nat \<Rightarrow> call list" where
  "backward_calls n =
     concat (map (\<lambda>k.
       Call Mkl_trsv_u [tile n k k, (Ft_rhs, k)] (Ft_rhs, k)
       # map (\<lambda>m. Call Mkl_gemv_u [tile n k m, (Ft_rhs, k), (Ft_rhs, m)] (Ft_rhs, m))
           (rev [0..<k])) (rev [0..<n]))"

section \<open>Prediction and posterior covariance\<close>

definition prediction_tiled :: "'t mkl \<Rightarrow> nat \<Rightarrow> nat \<Rightarrow> nat \<Rightarrow> nat \<Rightarrow> 't sched \<Rightarrow> 't sched" where
  "prediction_tiled K N_row N_col n_tiles m_tiles =
     for_up 0 m_tiles (\<lambda>k.
       for_up 0 n_tiles (\<lambda>m.
         dataflow3 Mkl_gemv_p (\<lambda>A a b. mkl_gemv_p K A a b N_row N_col)
           (Ft_tiles, k * n_tiles + m) (Ft_vector, m) (Ft_rhs, k) (Ft_rhs, k)))"

definition prediction_call :: "nat \<Rightarrow> nat \<Rightarrow> nat \<Rightarrow> call" where
  "prediction_call n_tiles k m =
     Call Mkl_gemv_p [(Ft_tiles, k * n_tiles + m), (Ft_vector, m), (Ft_rhs, k)] (Ft_rhs, k)"

text \<open>
  \<^verbatim>\<open>posterior_covariance_tiled\<close>: the loop over \<open>j\<close> runs from \<open>i\<close> to \<open>i\<close>
  (\<^verbatim>\<open>for (int j = i; j < i + 1; ++j)\<close>).
\<close>

definition posterior_covariance_tiled ::
  "'t mkl \<Rightarrow> nat \<Rightarrow> nat \<Rightarrow> nat \<Rightarrow> nat \<Rightarrow> 't sched \<Rightarrow> 't sched" where
  "posterior_covariance_tiled K N M n_tiles m_tiles =
     for_up 0 m_tiles (\<lambda>i.
       for_up i (i + 1) (\<lambda>j.
         for_up 0 n_tiles (\<lambda>m.
           dataflow3 Mkl_gemm_uncertainty_matrix
             (\<lambda>A B C. mkl_gemm_uncertainty_matrix K A B C N M)
             (Ft_CC_tiles, i * n_tiles + m) (Ft_tCC_tiles, m * m_tiles + i)
             (Ft_K_tiles, i * m_tiles + j) (Ft_K_tiles, i * m_tiles + j))))"

definition posterior_call :: "nat \<Rightarrow> nat \<Rightarrow> nat \<Rightarrow> nat \<Rightarrow> call" where
  "posterior_call n_tiles m_tiles i m =
     Call Mkl_gemm_uncertainty_matrix
       [(Ft_CC_tiles, i * n_tiles + m), (Ft_tCC_tiles, m * m_tiles + i),
        (Ft_K_tiles, i * m_tiles + i)] (Ft_K_tiles, i * m_tiles + i)"

subsection \<open>The matrix-vector kernel of the device adapter\<close>

text \<open>
  \<^verbatim>\<open>gemv\<close> of \<^verbatim>\<open>adapter_cublas.cpp\<close> copies \<open>b\<close> out of its future and calls
  \<^verbatim>\<open>cblas_dgemv(CblasRowMajor, transpose_A, N, M, alpha, A, M, a, 1, beta, b, 1)\<close>
  with \<open>beta = 1.0\<close>. The BLAS routine (a library outside the repository)
  computes \<open>y := alpha * op(A) * x + beta * y\<close> for the row-major \<open>rows \<times> cols\<close>
  matrix \<open>A\<close> with leading dimension \<open>lda\<close>; entries of \<open>y\<close> past the result
  length are not touched.
\<close>

datatype BLAS_TRANSPOSE = Blas_no_trans | Blas_trans

definition cblas_dgemv ::
  "BLAS_TRANSPOSE \<Rightarrow> nat \<Rightarrow> nat \<Rightarrow> real \<Rightarrow> real list \<Rightarrow> nat \<Rightarrow> real list \<Rightarrow> real \<Rightarrow> real list
     \<Rightarrow> real list" where
  "cblas_dgemv TransA rows cols alpha A lda x beta y =
     (case TransA of
        Blas_no_trans \<Rightarrow>
          map (\<lambda>i. alpha * (\<Sum>j\<leftarrow>[0..<cols]. A ! (i * lda + j) * x ! j) + beta * y ! i) [0..<rows]
          @ drop rows y
      | Blas_trans \<Rightarrow>
          map (\<lambda>j. alpha * (\<Sum>i\<leftarrow>[0..<rows]. A ! (i * lda + j) * x ! i) + beta * y ! j) [0..<cols]
          @ drop cols y)"

definition gemv ::
  "real list \<Rightarrow> real list \<Rightarrow> real list \<Rightarrow> nat \<Rightarrow> nat \<Rightarrow> real \<Rightarrow> BLAS_TRANSPOSE \<Rightarrow> real list" where
  "gemv A a b N M alpha transpose_A =
     (let beta = 1 in cblas_dgemv transpose_A N M alpha A M a beta b)"

text \<open>
  An instance of the kernels for evaluation, with tiles as lists of reals: the
  prediction kernel is \<open>gemv\<close> with \<open>alpha = 1\<close> and no transposition; the
  other kernels, which \<open>prediction_tiled\<close> does not call, return their in-out
  argument.
\<close>

definition gemv_mkl :: "real list mkl" where
  "gemv_mkl =
     \<lparr>mkl_potrf = (\<lambda>A N. A),
      mkl_trsm = (\<lambda>L A N. A),
      mkl_syrk = (\<lambda>A B N. A),
      mkl_gemm = (\<lambda>A B C N. C),
      mkl_trsv_l = (\<lambda>L a N. a),
      mkl_gemv_l = (\<lambda>A a b N. b),
      mkl_trsv_u = (\<lambda>L a N. a),
      mkl_gemv_u = (\<lambda>A a b N. b),
      mkl_gemv_p = (\<lambda>A a b N_row N_col. gemv A a b N_row N_col 1 Blas_no_trans),
      mkl_gemm_uncertainty_matrix = (\<lambda>A B C N M. C)\<rparr>"

definition prediction_example :: "real list sched" where
  "prediction_example =
     \<lparr>store = (\<lambda>a. if a = Ft_tiles then [[2], [3]]
                   else if a = Ft_vector then [[5], [7]]
                   else if a = Ft_rhs then [[1]] else []),
      issued = []\<rparr>"

text \<open>
  Modelled from the spec: the kernels of \<^verbatim>\<open>mkl_adapter.hpp\<close> on tiles of a
  single entry (\<open>N = 1\<close>), as the kernel library of the specification describes
  them: the factor of a tile is its square root, a triangular solve divides by
  the factor, the updates subtract a product, the prediction kernel adds one.
  An instance for evaluation.
\<close>

definition scalar_mkl :: "real mkl" where
  "scalar_mkl =
     \<lparr>mkl_potrf = (\<lambda>A N. sqrt A),
      mkl_trsm = (\<lambda>L A N. A / L),
      mkl_syrk = (\<lambda>A B N. A - B * B),
      mkl_gemm = (\<lambda>A B C N. C - A * B),
      mkl_trsv_l = (\<lambda>L a N. a / L),
      mkl_gemv_l = (\<lambda>A a b N. b - A * a),
      mkl_trsv_u = (\<lambda>L a N. a / L),
      mkl_gemv_u = (\<lambda>A a b N. b - A * a),
      mkl_gemv_p = (\<lambda>A a b N_row N_col. b + A * a),
      mkl_gemm_uncertainty_matrix = (\<lambda>A B C N M. C + A * B)\<rparr>"

subsection \<open>Dense tiles and the triangular solve of the device adapter\<close>

text \<open>
  The entries of a right-hand-side tile, as a vector of reals indexed by the
  natural numbers; vectors are added and subtracted entry by entry.
\<close>

datatype rvec = Rvec (entry: "nat \<Rightarrow> real")

instantiation rvec :: ab_group_add
begin

definition zero_rvec :: rvec where
  "zero_rvec = Rvec (\<lambda>i. 0)"

definition plus_rvec :: "rvec \<Rightarrow> rvec \<Rightarrow> rvec" where
  "plus_rvec x y = Rvec (\<lambda>i. entry x i + entry y i)"

definition uminus_rvec :: "rvec \<Rightarrow> rvec" where
  "uminus_rvec x = Rvec (\<lambda>i. - entry x i)"

definition minus_rvec :: "rvec \<Rightarrow> rvec \<Rightarrow> rvec" where
  "minus_rvec x y = Rvec (\<lambda>i. entry x i - entry y i)"

instance
  by standard
     (simp_all add: zero_rvec_def plus_rvec_def uminus_rvec_def minus_rvec_def add.assoc
        add.commute rvec.expand fun_eq_iff)

end

text \<open>The first \<open>N\<close> entries of a tile, as a vector.\<close>

definition vec_of :: "nat \<Rightarrow> real list \<Rightarrow> rvec" where
  "vec_of N a = Rvec (\<lambda>i. if i < N then a ! i else 0)"

text \<open>
  What a row-major \<open>N \<times> N\<close> tile does to a vector: the product with the
  matrix of its entries on and below the diagonal (\<open>lower_apply\<close>), with the
  transpose of that matrix (\<open>lowerT_apply\<close>), with the whole tile
  (\<open>full_apply\<close>) and with the transpose of the whole tile (\<open>fullT_apply\<close>).
  The first two do not look at the entries above the diagonal, which in a
  factored diagonal tile still hold what the input matrix had there.
\<close>

definition lower_apply :: "nat \<Rightarrow> real list \<Rightarrow> rvec \<Rightarrow> rvec" where
  "lower_apply N L x =
     Rvec (\<lambda>i. if i < N then (\<Sum>j\<leftarrow>[0..<Suc i]. L ! (i * N + j) * entry x j) else 0)"

definition full_apply :: "nat \<Rightarrow> real list \<Rightarrow> rvec \<Rightarrow> rvec" where
  "full_apply N A x =
     Rvec (\<lambda>i. if i < N then (\<Sum>j\<leftarrow>[0..<N]. A ! (i * N + j) * entry x j) else 0)"

definition lowerT_apply :: "nat \<Rightarrow> real list \<Rightarrow> rvec \<Rightarrow> rvec" where
  "lowerT_apply N L x =
     Rvec (\<lambda>i. if i < N then (\<Sum>k\<leftarrow>[i..<N]. L ! (k * N + i) * entry x k) else 0)"

definition fullT_apply :: "nat \<Rightarrow> real list \<Rightarrow> rvec \<Rightarrow> rvec" where
  "fullT_apply N A x =
     Rvec (\<lambda>j. if j < N then (\<Sum>i\<leftarrow>[0..<N]. A ! (i * N + j) * entry x i) else 0)"

text \<open>
  \<^verbatim>\<open>trsv\<close> of \<^verbatim>\<open>adapter_cublas.cpp\<close> copies the tile \<open>L\<close> and the first \<open>N\<close>
  entries of \<open>a\<close> to the device, calls
  \<^verbatim>\<open>cublasDtrsv(CUBLAS_FILL_MODE_UPPER, cublas_transpose(transpose_L), CUBLAS_DIAG_NON_UNIT, N, d_L, N, d_a, 1)\<close>,
  copies the \<open>N\<close> entries back into its copy of \<open>a\<close> and returns that copy. The
  library routine is outside the repository and \<^verbatim>\<open>cublas_transpose\<close> is not
  among the sources at hand; their joint effect is taken from the comment at
  the call, \<^verbatim>\<open>In-place solve L(^T) * x = a where L lower triangular\<close>: the upper
  fill mode of the column-major library selects the entries on and below the
  diagonal of the row-major tile, and the system with that triangle (or with
  its transpose) is solved by substitution, dividing by the diagonal entries.
  The entries above the diagonal are not read. The vector handed in holds at
  least \<open>N\<close> entries, those the two copies move.
\<close>

definition trsv :: "real list \<Rightarrow> real list \<Rightarrow> nat \<Rightarrow> BLAS_TRANSPOSE \<Rightarrow> real list" where
  "trsv L a N transpose_L =
     (case transpose_L of
        Blas_no_trans \<Rightarrow>
          fold (\<lambda>i x. x @ [(a ! i - (\<Sum>j\<leftarrow>[0..<i]. L ! (i * N + j) * x ! j)) / L ! (i * N + i)])
            [0..<N] []
      | Blas_trans \<Rightarrow>
          fold (\<lambda>i x. (a ! i - (\<Sum>k\<leftarrow>[Suc i..<N]. L ! (k * N + i) * x ! (k - Suc i)))
                         / L ! (i * N + i) # x)
            (rev [0..<N]) [])
     @ drop N a"

text \<open>
  An instance of the kernels for evaluation, with tiles as lists of reals: the
  two triangular solves are \<open>trsv\<close> without and with transposition, the two
  updates of the solves are \<open>gemv\<close> with \<open>alpha = -1\<close> on the square tile,
  without and with transposition, the prediction kernel is \<open>gemv\<close> with
  \<open>alpha = 1\<close>; the kernels of the factorization return their in-out argument.
\<close>

definition adapter_mkl :: "real list mkl" where
  "adapter_mkl =
     \<lparr>mkl_potrf = (\<lambda>A N. A),
      mkl_trsm = (\<lambda>L A N. A),
      mkl_syrk = (\<lambda>A B N. A),
      mkl_gemm = (\<lambda>A B C N. C),
      mkl_trsv_l = (\<lambda>L a N. trsv L a N Blas_no_trans),
      mkl_gemv_l = (\<lambda>A a b N. gemv A a b N N (- 1) Blas_no_trans),
      mkl_trsv_u = (\<lambda>L a N. trsv L a N Blas_trans),
      mkl_gemv_u = (\<lambda>A a b N. gemv A a b N N (- 1) Blas_trans),
      mkl_gemv_p = (\<lambda>A a b N_row N_col. gemv A a b N_row N_col 1 Blas_no_trans),
      mkl_gemm_uncertainty_matrix = (\<lambda>A B C N M. C)\<rparr>"

text \<open>
  Two tiles of order 2 per side. The diagonal tiles hold a factor in their
  lower triangle and a stale entry above it (2 and 7): tile \<open>(0,0)\<close> is what
  the factorization leaves of \<open>[[1, 2], [2, 5]]\<close>. Tile \<open>(0,1)\<close>, above the
  diagonal, holds values no solve should read. The right-hand side is
  \<open>[1, 3, 2, 4]\<close>.
\<close>

definition dense_solve_example :: "real list sched" where
  "dense_solve_example =
     \<lparr>store = (\<lambda>a. if a = Ft_tiles then [[1, 2, 2, 1], [9, 9, 9, 9], [1, 1, 0, 1], [1, 7, 1, 1]]
                   else if a = Ft_rhs then [[1, 3], [2, 4]] else []),
      issued = []\<rparr>"

subsection \<open>Symbolic tiles\<close>

text \<open>
  An instance of the kernels for evaluation: a tile is the term that says how
  it was computed, from the tiles the caller supplied (\<open>Input\<close>) by kernel
  invocations.
\<close>

datatype expr = Input array nat | Task kernel "expr list"

definition symbolic_mkl :: "expr mkl" where
  "symbolic_mkl =
     \<lparr>mkl_potrf = (\<lambda>A N. Task Mkl_potrf [A]),
      mkl_trsm = (\<lambda>L A N. Task Mkl_trsm [L, A]),
      mkl_syrk = (\<lambda>A B N. Task Mkl_syrk [A, B]),
      mkl_gemm = (\<lambda>A B C N. Task Mkl_gemm [A, B, C]),
      mkl_trsv_l = (\<lambda>L a N. Task Mkl_trsv_l [L, a]),
      mkl_gemv_l = (\<lambda>A a b N. Task Mkl_gemv_l [A, a, b]),
      mkl_trsv_u = (\<lambda>L a N. Task Mkl_trsv_u [L, a]),
      mkl_gemv_u = (\<lambda>A a b N. Task Mkl_gemv_u [A, a, b]),
      mkl_gemv_p = (\<lambda>A a b N_row N_col. Task Mkl_gemv_p [A, a, b]),
      mkl_gemm_uncertainty_matrix = (\<lambda>A B C N M. Task Mkl_gemm_uncertainty_matrix [A, B, C])\<rparr>"

definition initial :: "nat \<Rightarrow> expr sched" where
  "initial len = \<lparr>store = (\<lambda>a. map (Input a) [0..<len]), issued = []\<rparr>"

section \<open>Hyperparameter optimizer\<close>

text \<open>
  \<^verbatim>\<open>update_hyperparameter\<close> and \<^verbatim>\<open>update_noise_variance\<close> mutate the
  hyperparameter array and the moment vectors \<^verbatim>\<open>m_T\<close>, \<^verbatim>\<open>v_T\<close> that the
  caller passes by pointer and by reference; \<open>optimizer\<close> is that mutable
  state, together with the tasks handed to the runtime so far. Doubles are
  modelled by real numbers. A call returns the state it leaves behind and the
  exception it threw, if any.

  The functions of \<^verbatim>\<open>gp_functions_grad.hpp\<close> and \<^verbatim>\<open>mkl_adapter.hpp\<close> that
  the two routines schedule are not part of the sources at hand; they are the
  fields of \<open>helpers\<close>, with the argument order of their call sites.
\<close>

datatype error =
    NotPositiveDefinite
  | InvalidArgument string
  | RuntimeError string
  | CudaError

datatype task =
    Gen_tile_zeros_diag nat
  | Mkl_gemm_diag nat nat
  | Compute_gradient
  | Compute_gradient_noise
  | To_unconstrained
  | Update_fist_moment
  | Update_second_moment
  | Update_param
  | To_constrained

record optimizer =
  hyperparameters :: "real list"
  m_T :: "real list"
  v_T :: "real list"
  scheduled :: "task list"

record 't helpers =
  gen_tile_zeros_diag :: "nat \<Rightarrow> 't"
  mkl_gemm_diag :: "'t \<Rightarrow> 't \<Rightarrow> 't \<Rightarrow> nat \<Rightarrow> 't"
  compute_gradient :: "'t list \<Rightarrow> nat \<Rightarrow> nat \<Rightarrow> real"
  compute_gradient_noise :: "'t list \<Rightarrow> real list \<Rightarrow> nat \<Rightarrow> nat \<Rightarrow> real"
  to_unconstrained :: "real \<Rightarrow> bool \<Rightarrow> real"
  to_constrained :: "real \<Rightarrow> bool \<Rightarrow> real"
  update_fist_moment :: "real \<Rightarrow> real \<Rightarrow> real \<Rightarrow> real"
  update_second_moment :: "real \<Rightarrow> real \<Rightarrow> real \<Rightarrow> real"
  update_param ::
    "real \<Rightarrow> real list \<Rightarrow> real \<Rightarrow> real \<Rightarrow> real \<Rightarrow> real list \<Rightarrow> real list \<Rightarrow> int \<Rightarrow> real"

text \<open>
  The local vector \<^verbatim>\<open>diag_tiles\<close>: one zero tile per diagonal position, then
  \<^verbatim>\<open>diag_tiles[i] = mkl_gemm_diag(ft_tiles[i * n_tiles + j], ft_rhs[j * n_tiles + i],
  diag_tiles[i], N)\<close> for all \<open>i\<close>, \<open>j\<close>. The pair carries the vector and the
  tasks scheduled.
\<close>

definition gen_diag_tiles ::
  "'t helpers \<Rightarrow> nat \<Rightarrow> nat \<Rightarrow> task list \<Rightarrow> 't list \<times> task list" where
  "gen_diag_tiles H N n_tiles lg =
     for_up 0 n_tiles
       (\<lambda>d (dt, lg). (dt @ [gen_tile_zeros_diag H N], lg @ [Gen_tile_zeros_diag d]))
       ([], lg)"

definition fill_diag_tiles ::
  "'t helpers \<Rightarrow> 't list \<Rightarrow> 't list \<Rightarrow> nat \<Rightarrow> nat \<Rightarrow> 't list \<times> task list
     \<Rightarrow> 't list \<times> task list" where
  "fill_diag_tiles H ft_tiles ft_rhs N n_tiles =
     for_up 0 n_tiles (\<lambda>i.
       for_up 0 n_tiles (\<lambda>j (dt, lg).
         (dt[i := mkl_gemm_diag H (ft_tiles ! (i * n_tiles + j))
                   (ft_rhs ! (j * n_tiles + i)) (dt ! i) N],
          lg @ [Mkl_gemm_diag i j])))"

text \<open>
  The Adam step both routines share after the gradient is known (lines 298 to
  306 and 329 to 337 of the source): slot \<open>i\<close> of the three arrays, the flag
  passed to the two reparametrization functions.
\<close>

definition adam_step ::
  "'t helpers \<Rightarrow> real \<Rightarrow> real list \<Rightarrow> real list \<Rightarrow> int \<Rightarrow> nat \<Rightarrow> bool \<Rightarrow> task list
     \<Rightarrow> optimizer \<Rightarrow> optimizer" where
  "adam_step H gradient beta1_T beta2_T iter i noise lg opt =
     (let hp = hyperparameters opt;
          unconstrained_param = to_unconstrained H (hp ! i) noise;
          m = update_fist_moment H gradient (m_T opt ! i) (hp ! 4);
          v = update_second_moment H gradient (v_T opt ! i) (hp ! 5);
          updated_param = update_param H unconstrained_param hp gradient m v
                            beta1_T beta2_T iter
      in \<lparr>hyperparameters = hp[i := to_constrained H updated_param noise],
          m_T = (m_T opt)[i := m],
          v_T = (v_T opt)[i := v],
          scheduled = lg @ [To_unconstrained, Update_fist_moment, Update_second_moment,
                            Update_param, To_constrained]\<rparr>)"

text \<open>
  Lines 279 to 296: the diagonal tiles and the trace reduction to the scalar
  gradient, with the tasks scheduled on the way.
\<close>

definition diag_gradient ::
  "'t helpers \<Rightarrow> 't list \<Rightarrow> 't list \<Rightarrow> nat \<Rightarrow> nat \<Rightarrow> task list \<Rightarrow> real \<times> task list" where
  "diag_gradient H ft_tiles ft_rhs N n_tiles lg0 =
     (let (diag_tiles, lg) =
            fill_diag_tiles H ft_tiles ft_rhs N n_tiles (gen_diag_tiles H N n_tiles lg0)
      in (compute_gradient H diag_tiles N n_tiles, lg @ [Compute_gradient]))"

definition update_hyperparameter ::
  "'t helpers \<Rightarrow> 't list \<Rightarrow> 't list \<Rightarrow> nat \<Rightarrow> nat \<Rightarrow> real list \<Rightarrow> real list \<Rightarrow> int \<Rightarrow> int
     \<Rightarrow> optimizer \<Rightarrow> error option \<times> optimizer" where
  "update_hyperparameter H ft_tiles ft_rhs N n_tiles beta1_T beta2_T iter param_idx opt =
     (if param_idx = 0 \<or> param_idx = 1 then
        let (gradient, lg) = diag_gradient H ft_tiles ft_rhs N n_tiles (scheduled opt)
        in (None, adam_step H gradient beta1_T beta2_T iter (nat param_idx) False lg opt)
      else (Some (InvalidArgument ''Invalid param_idx''), opt))"

definition update_noise_variance ::
  "'t helpers \<Rightarrow> 't list \<Rightarrow> nat \<Rightarrow> nat \<Rightarrow> real list \<Rightarrow> real list \<Rightarrow> int
     \<Rightarrow> optimizer \<Rightarrow> error option \<times> optimizer" where
  "update_noise_variance H ft_tiles N n_tiles beta1_T beta2_T iter opt =
     (let gradient = compute_gradient_noise H ft_tiles (hyperparameters opt) N n_tiles
      in (None, adam_step H gradient beta1_T beta2_T iter 2 True
                  (scheduled opt @ [Compute_gradient_noise]) opt))"

subsection \<open>The Adam helper functions, from the specification\<close>

text \<open>
  Modelled from the spec: \<^verbatim>\<open>to_unconstrained\<close> and \<^verbatim>\<open>to_constrained\<close> of
  \<^verbatim>\<open>gp_functions_grad.hpp\<close>, which is not among the sources. The specification
  reparametrizes a strictly positive parameter by the logarithm and maps it
  back by the inverse; it gives the flag that marks the noise variance no role.
\<close>

definition to_unconstrained_spec :: "real \<Rightarrow> bool \<Rightarrow> real" where
  "to_unconstrained_spec parameter noise = ln parameter"

definition to_constrained_spec :: "real \<Rightarrow> bool \<Rightarrow> real" where
  "to_constrained_spec parameter noise = exp parameter"

text \<open>
  Modelled from the spec: \<^verbatim>\<open>update_fist_moment\<close> and \<^verbatim>\<open>update_second_moment\<close>
  of \<^verbatim>\<open>gp_functions_grad.hpp\<close>: \<open>m = \<beta>1 * m + (1 - \<beta>1) * g\<close> and
  \<open>v = \<beta>2 * v + (1 - \<beta>2) * g\<^sup>2\<close>.
\<close>

definition update_fist_moment_spec :: "real \<Rightarrow> real \<Rightarrow> real \<Rightarrow> real" where
  "update_fist_moment_spec gradient m beta1 = beta1 * m + (1 - beta1) * gradient"

definition update_second_moment_spec :: "real \<Rightarrow> real \<Rightarrow> real \<Rightarrow> real" where
  "update_second_moment_spec gradient v beta2 = beta2 * v + (1 - beta2) * gradient\<^sup>2"

text \<open>
  Modelled from the spec: \<^verbatim>\<open>update_param\<close> of \<^verbatim>\<open>gp_functions_grad.hpp\<close>. The
  moments are bias-corrected with the power accumulators \<open>\<beta>1\<^sup>t\<close>, \<open>\<beta>2\<^sup>t\<close> of the
  iteration, read from \<^verbatim>\<open>beta1_T[iter]\<close> and \<^verbatim>\<open>beta2_T[iter]\<close>, and the
  unconstrained parameter moves by \<open>lr * m_hat / (sqrt v_hat + \<epsilon>)\<close>. The
  learning rate is the scheduling scalar before \<open>\<beta>1\<close> and \<open>\<beta>2\<close> (slots 4 and 5
  at the call sites), slot 3; the specification does not place \<open>\<epsilon>\<close>, which is
  read from slot 6 here.
\<close>

definition update_param_spec ::
  "real \<Rightarrow> real list \<Rightarrow> real \<Rightarrow> real \<Rightarrow> real \<Rightarrow> real list \<Rightarrow> real list \<Rightarrow> int \<Rightarrow> real" where
  "update_param_spec unconstrained_param hp gradient m v beta1_T beta2_T iter =
     (let m_hat = m / (1 - beta1_T ! nat iter);
          v_hat = v / (1 - beta2_T ! nat iter)
      in unconstrained_param - hp ! 3 * m_hat / (sqrt v_hat + hp ! 6))"

text \<open>The helpers of \<open>H\<close> with the five Adam functions as the specification has them.\<close>

definition with_adam_spec :: "'t helpers \<Rightarrow> 't helpers" where
  "with_adam_spec H =
     H\<lparr>to_unconstrained := to_unconstrained_spec,
       to_constrained := to_constrained_spec,
       update_fist_moment := update_fist_moment_spec,
       update_second_moment := update_second_moment_spec,
       update_param := update_param_spec\<rparr>"

text \<open>
  Modelled from the spec: the gradient kernels \<^verbatim>\<open>gen_tile_zeros_diag\<close>,
  \<^verbatim>\<open>mkl_gemm_diag\<close>, \<^verbatim>\<open>compute_gradient\<close> and \<^verbatim>\<open>compute_gradient_noise\<close> on
  tiles of one entry (\<open>N = 1\<close>): a zero tile, the diagonal accumulation
  \<open>C + A * B\<close>, the trace as the sum of the diagonal tiles, the noise gradient
  as the trace over the diagonal tiles it is handed; with them the five Adam
  functions above. An instance for evaluation.
\<close>

definition scalar_helpers :: "real helpers" where
  "scalar_helpers =
     \<lparr>gen_tile_zeros_diag = (\<lambda>N. 0),
      mkl_gemm_diag = (\<lambda>A B C N. C + A * B),
      compute_gradient = (\<lambda>diag_tiles N n_tiles. sum_list diag_tiles),
      compute_gradient_noise = (\<lambda>ft_tiles hp N n_tiles.
         sum_list (map (\<lambda>d. ft_tiles ! (d * n_tiles + d)) [0..<n_tiles])),
      to_unconstrained = to_unconstrained_spec,
      to_constrained = to_constrained_spec,
      update_fist_moment = update_fist_moment_spec,
      update_second_moment = update_second_moment_spec,
      update_param = update_param_spec\<rparr>"

text \<open>
  An optimizer state for evaluation: all three parameters 1, learning rate 1,
  \<open>\<beta>1 = 1 / 2\<close>, \<open>\<beta>2 = 0\<close>, \<open>\<epsilon> = 1\<close>, moments zero, nothing scheduled.
\<close>

definition opt0 :: optimizer where
  "opt0 = \<lparr>hyperparameters = [1, 1, 1, 1, 1 / 2, 0, 1],
           m_T = [0, 0, 0], v_T = [0, 0, 0], scheduled = []\<rparr>"

subsection \<open>The Adam rule and the valid domain, as the specification states them\<close>

text \<open>
  The Adam rule in the words of the specification, for the parameter in slot
  \<open>i\<close> and the gradient \<open>g\<close>: the new first moment, the new second moment and
  the new (constrained) parameter value.
\<close>

definition adam_rule ::
  "real \<Rightarrow> real list \<Rightarrow> real list \<Rightarrow> int \<Rightarrow> nat \<Rightarrow> optimizer \<Rightarrow> real \<times> real \<times> real" where
  "adam_rule g beta1_T beta2_T iter i opt =
     (let hp = hyperparameters opt;
          lr = hp ! 3; beta1 = hp ! 4; beta2 = hp ! 5; eps = hp ! 6;
          theta = ln (hp ! i);
          m = beta1 * (m_T opt ! i) + (1 - beta1) * g;
          v = beta2 * (v_T opt ! i) + (1 - beta2) * g\<^sup>2;
          m_hat = m / (1 - beta1_T ! nat iter);
          v_hat = v / (1 - beta2_T ! nat iter)
      in (m, v, exp (theta - lr * m_hat / (sqrt v_hat + eps))))"

text \<open>Vertical scale (slot 1) and noise variance (slot 2) are strictly positive.\<close>

definition valid_domain :: "real list \<Rightarrow> bool" where
  "valid_domain hp \<longleftrightarrow> 0 < hp ! 1 \<and> 0 < hp ! 2"

text \<open>
  An arbitrary write to the per-parameter state of slot \<open>j\<close>: its
  hyperparameter and its two moments.
\<close>

definition poke :: "nat \<Rightarrow> real \<Rightarrow> real \<Rightarrow> real \<Rightarrow> optimizer \<Rightarrow> optimizer" where
  "poke j x y z opt =
     opt\<lparr>hyperparameters := (hyperparameters opt)[j := x],
         m_T := (m_T opt)[j := y], v_T := (v_T opt)[j := z]\<rparr>"

subsection \<open>The reparametrization in double precision\<close>

text \<open>
  Modelled from the spec: \<^verbatim>\<open>to_constrained\<close> as the program evaluates it.
  Its result goes into \<^verbatim>\<open>hyperparameters[param_idx]\<close>, a \<^verbatim>\<open>double\<close> (line 306
  of the source, line 337 for the noise variance). Of the rounding to a double
  only the underflow is modelled: a result of magnitude at most \<open>2\<^sup>-\<^sup>1\<^sup>0\<^sup>7\<^sup>5\<close>, half
  the least positive double, is rounded to zero; every other result is kept as
  it is. Overflow and the rounding of larger results are not modelled.
\<close>

definition double_underflow :: "real \<Rightarrow> real" where
  "double_underflow x = (if \<bar>x\<bar> \<le> 1 / 2 ^ 1075 then 0 else x)"

definition to_constrained_double :: "real \<Rightarrow> bool \<Rightarrow> real" where
  "to_constrained_double parameter noise = double_underflow (exp parameter)"

text \<open>The helpers of \<open>H\<close> with the constrained value stored as a double.\<close>

definition with_double_storage :: "'t helpers \<Rightarrow> 't helpers" where
  "with_double_storage H = H\<lparr>to_constrained := to_constrained_double\<rparr>"

text \<open>
  The value \<^verbatim>\<open>updated_param\<close> of lines 298 to 304 (and 329 to 335): the
  parameter of slot \<open>i\<close> after the Adam step, still in unconstrained space.
\<close>

definition updated_unconstrained ::
  "'t helpers \<Rightarrow> real \<Rightarrow> real list \<Rightarrow> real list \<Rightarrow> int \<Rightarrow> nat \<Rightarrow> bool \<Rightarrow> optimizer \<Rightarrow> real" where
  "updated_unconstrained H gradient beta1_T beta2_T iter i noise opt =
     (let hp = hyperparameters opt;
          unconstrained_param = to_unconstrained H (hp ! i) noise;
          m = update_fist_moment H gradient (m_T opt ! i) (hp ! 4);
          v = update_second_moment H gradient (v_T opt ! i) (hp ! 5)
      in update_param H unconstrained_param hp gradient m v beta1_T beta2_T iter)"

text \<open>The optimizer state \<open>opt0\<close> with the learning rate 4000.\<close>

definition opt_large_rate :: optimizer where
  "opt_large_rate = \<lparr>hyperparameters = [1, 1, 1, 4000, 1 / 2, 0, 1],
           m_T = [0, 0, 0], v_T = [0, 0, 0], scheduled = []\<rparr>"

section \<open>The factorization kernel of the device adapter\<close>

text \<open>
  \<^verbatim>\<open>potrf\<close> of \<^verbatim>\<open>adapter_cublas.cpp\<close> factors the tile behind the device
  pointer \<^verbatim>\<open>d_A\<close> in place and returns that pointer in a ready future. What
  the CUDA runtime and the C library answer is the environment; a failed
  \<^verbatim>\<open>check_cuda_error\<close> throws, and so does the failed host allocation. The dense
  solver \<^verbatim>\<open>cusolverDnXpotrf\<close> is a parameter: from the buffer and its order to
  the buffer it leaves and the status word it writes to \<^verbatim>\<open>d_info\<close>. The result
  is the exception thrown, if any, and the contents of the device buffer after
  the call.
\<close>

record cuda_env =
  cudaMalloc_d_info :: bool
  cudaMalloc_d_work :: bool
  workspaceInBytesOnHost :: nat
  malloc_h_work :: bool
  cudaStreamSynchronize_ok :: bool
  cudaFree_d_work :: bool
  cudaFree_d_info :: bool

definition potrf ::
  "cuda_env \<Rightarrow> (real list \<Rightarrow> nat \<Rightarrow> real list \<times> int) \<Rightarrow> real list \<Rightarrow> nat
     \<Rightarrow> error option \<times> real list" where
  "potrf env cusolverDnXpotrf d_A N =
     (if \<not> cudaMalloc_d_info env then (Some CudaError, d_A)
      else if \<not> cudaMalloc_d_work env then (Some CudaError, d_A)
      else if 0 < workspaceInBytesOnHost env \<and> \<not> malloc_h_work env
        then (Some (RuntimeError ''Error: h_work not allocated.''), d_A)
      else
        let (d_A', d_info) = cusolverDnXpotrf d_A N
        in if \<not> cudaStreamSynchronize_ok env then (Some CudaError, d_A')
           else if \<not> cudaFree_d_work env then (Some CudaError, d_A')
           else if \<not> cudaFree_d_info env then (Some CudaError, d_A')
           else (None, d_A'))"

text \<open>
  Modelled from the spec: the dense factorization behind the kernel
  (\<^verbatim>\<open>cusolverDnXpotrf\<close>, a library outside the repository). It computes the
  lower Cholesky factor of the row-major \<open>N \<times> N\<close> tile over its lower
  triangle, row by row; at the first pivot that is not positive it stops and
  reports the order of the failing leading minor in the status word, which is
  0 on success.
\<close>

definition cholesky_entry :: "nat \<Rightarrow> nat \<times> nat \<Rightarrow> real list \<times> int \<Rightarrow> real list \<times> int" where
  "cholesky_entry N ij st =
     (case ij of (i, j) \<Rightarrow> case st of (L, info) \<Rightarrow>
        if info \<noteq> 0 then (L, info)
        else
          let pivot = L ! (i * N + j) - (\<Sum>k\<leftarrow>[0..<j]. L ! (i * N + k) * L ! (j * N + k))
          in if i = j
             then (if pivot \<le> 0 then (L, int i + 1) else (L[i * N + i := sqrt pivot], 0))
             else (L[i * N + j := pivot / L ! (j * N + j)], 0))"

definition xpotrf_lower :: "real list \<Rightarrow> nat \<Rightarrow> real list \<times> int" where
  "xpotrf_lower A N =
     fold (cholesky_entry N) (concat (map (\<lambda>i. map (\<lambda>j. (i, j)) [0..<Suc i]) [0..<N])) (A, 0)"

text \<open>An environment in which every runtime call succeeds.\<close>

definition ok_env :: cuda_env where
  "ok_env =
     \<lparr>cudaMalloc_d_info = True, cudaMalloc_d_work = True, workspaceInBytesOnHost = 0,
      malloc_h_work = True, cudaStreamSynchronize_ok = True, cudaFree_d_work = True,
      cudaFree_d_info = True\<rparr>"

section \<open>Loops as folds, and what a loop issues\<close>

lemma for_up_fold: "for_up i hi body s = fold body [i..<hi] s"
proof (induction i hi body s rule: for_up.induct)
  case (1 i hi body s)
  show ?case
  proof (cases "i < hi")
    case True
    with 1 show ?thesis
      by (subst for_up.simps) (simp add: upt_conv_Cons)
  next
    case False
    then show ?thesis
      by (subst for_up.simps) simp
  qed
qed

lemma for_up_eq_fold: "for_up i hi body = fold body [i..<hi]"
  by (rule ext) (rule for_up_fold)

lemma for_down_fold: "for_down k body s = fold body (rev [0..<nat (k + 1)]) s"
proof (induction k body s rule: for_down.induct)
  case (1 k body s)
  show ?case
  proof (cases "0 \<le> k")
    case True
    then have "nat (k + 1) = Suc (nat k)" and "nat (k - 1 + 1) = nat k"
      by simp_all
    with True 1 show ?thesis
      by (subst for_down.simps) simp
  next
    case False
    then show ?thesis
      by (subst for_down.simps) simp
  qed
qed

lemma for_down_eq_fold: "for_down k body = fold body (rev [0..<nat (k + 1)])"
  by (rule ext) (rule for_down_fold)

lemma for_up_invariant:
  assumes "P s" and "\<And>x s. i \<le> x \<Longrightarrow> x < hi \<Longrightarrow> P s \<Longrightarrow> P (body x s)"
  shows "P (for_up i hi body s)"
proof -
  have "P (fold body xs s)" if "set xs \<subseteq> {i..<hi}" for xs
    using that assms(1)
  proof (induction xs arbitrary: s)
    case Nil
    then show ?case by simp
  next
    case (Cons x xs)
    then show ?case
      using assms(2) [of x s] by simp
  qed
  then show ?thesis
    by (simp add: for_up_fold)
qed

lemma issued_assign [simp]: "issued (assign w k rs v s) = issued s @ [Call k rs w]"
  by (simp add: assign_def)

lemma store_assign [simp]:
  "store (assign w k rs v s) = (store s)(fst w := (store s (fst w))[snd w := v])"
  by (simp add: assign_def)

lemma issued_dataflow [simp]:
  "issued (dataflow1 k f1 r1 w s) = issued s @ [Call k [r1] w]"
  "issued (dataflow2 k f2 r1 r2 w s) = issued s @ [Call k [r1, r2] w]"
  "issued (dataflow3 k f3 r1 r2 r3 w s) = issued s @ [Call k [r1, r2, r3] w]"
  by (simp_all add: dataflow1_def dataflow2_def dataflow3_def)

lemma issued_fold:
  assumes "\<And>x s. x \<in> set xs \<Longrightarrow> issued (body x s) = issued s @ pat x"
  shows "issued (fold body xs s) = issued s @ concat (map pat xs)"
  using assms by (induction xs arbitrary: s) simp_all

lemma issued_for_up:
  assumes "\<And>x s. i \<le> x \<Longrightarrow> x < hi \<Longrightarrow> issued (body x s) = issued s @ pat x"
  shows "issued (for_up i hi body s) = issued s @ concat (map pat [i..<hi])"
  unfolding for_up_fold by (rule issued_fold) (simp add: assms)

lemma issued_cholesky:
  "issued (right_looking_cholesky_tiled_mkl K N n s) = issued s @ cholesky_calls n"
proof -
  have panel: "issued (for_up (Suc k) n (\<lambda>m.
                  dataflow2 Mkl_trsm (\<lambda>L A. mkl_trsm K L A N)
                    (tile n k k) (tile n m k) (tile n m k)) s1)
               = issued s1 @ panel_calls n k" for k and s1 :: "'a sched"
    by (subst issued_for_up [where pat = "\<lambda>m. [trsm_call n k m]"])
       (simp_all add: trsm_call_def panel_calls_def)
  have row: "issued (for_up (Suc k) m (\<lambda>j.
               dataflow3 Mkl_gemm (\<lambda>A B C. mkl_gemm K A B C N)
                 (tile n m k) (tile n j k) (tile n m j) (tile n m j))
               (dataflow2 Mkl_syrk (\<lambda>A B. mkl_syrk K A B N)
                 (tile n m m) (tile n m k) (tile n m m) s3))
             = issued s3 @ update_row n k m" for k m and s3 :: "'a sched"
    by (subst issued_for_up [where pat = "\<lambda>j. [gemm_call n k m j]"])
       (simp_all add: gemm_call_def syrk_call_def update_row_def)
  have upd: "issued (for_up (Suc k) n (\<lambda>m s3.
               for_up (Suc k) m (\<lambda>j.
                 dataflow3 Mkl_gemm (\<lambda>A B C. mkl_gemm K A B C N)
                   (tile n m k) (tile n j k) (tile n m j) (tile n m j))
                 (dataflow2 Mkl_syrk (\<lambda>A B. mkl_syrk K A B N)
                   (tile n m m) (tile n m k) (tile n m m) s3)) s2)
             = issued s2 @ update_calls n k" for k and s2 :: "'a sched"
    by (subst issued_for_up [where pat = "update_row n k"])
       (simp_all add: row update_calls_def)
  show ?thesis
    unfolding right_looking_cholesky_tiled_mkl_def
    by (subst issued_for_up [where pat = "stage_calls n"])
       (simp_all add: Let_def panel upd stage_calls_def potrf_call_def cholesky_calls_def)
qed

section \<open>The invocation pattern of the Cholesky factorization\<close>

subsection \<open>Independence within a stage\<close>

lemma tile_inj:
  assumes "j < n" "j' < n"
  shows "tile n i j = tile n i' j' \<longleftrightarrow> i = i' \<and> j = j'"
proof -
  have "i * n + j = i' * n + j' \<Longrightarrow> i = i' \<and> j = j'"
  proof -
    assume e: "i * n + j = i' * n + j'"
    have "(i * n + j) div n = i" "(i' * n + j') div n = i'"
      using assms by simp_all
    with e have "i = i'" by simp
    with e show ?thesis by simp
  qed
  then show ?thesis
    by (auto simp add: tile_def)
qed

lemma pairwise_independentI:
  assumes "distinct (map writes cs)"
    and "\<And>c d. c \<in> set cs \<Longrightarrow> d \<in> set cs \<Longrightarrow> writes c \<in> set (reads d) \<Longrightarrow> c = d"
  shows "pairwise_independent cs"
  using assms
proof (induction cs)
  case Nil
  then show ?case by simp
next
  case (Cons c cs)
  have "independent c d" if "d \<in> set cs" for d
  proof -
    from Cons.prems(1) that have ne: "writes c \<noteq> writes d" "c \<noteq> d"
      by auto
    from Cons.prems(2) [of c d] Cons.prems(2) [of d c] that ne
    show ?thesis
      by (auto simp add: independent_def conflicts_def)
  qed
  moreover have "pairwise_independent cs"
    using Cons by simp
  ultimately show ?case
    by (simp add: list_all_iff)
qed

lemma set_panel_calls:
  "set (panel_calls n k) = {trsm_call n k m | m. k < m \<and> m < n}"
  by (auto simp add: panel_calls_def)

lemma set_update_calls:
  "set (update_calls n k) =
     {syrk_call n k m | m. k < m \<and> m < n} \<union> {gemm_call n k m j | m j. k < j \<and> j < m \<and> m < n}"
proof -
  have "set (update_calls n k) = (\<Union>m\<in>{Suc k..<n}. insert (syrk_call n k m) (gemm_call n k m ` {Suc k..<m}))"
    by (simp add: update_calls_def update_row_def)
  also have "\<dots> = {syrk_call n k m | m. k < m \<and> m < n} \<union> {gemm_call n k m j | m j. k < j \<and> j < m \<and> m < n}"
    by (fastforce simp add: Suc_le_eq)
  finally show ?thesis .
qed

lemma panel_calls_independent: "pairwise_independent (panel_calls n k)"
proof (rule pairwise_independentI)
  have "map writes (panel_calls n k) = map (\<lambda>m. tile n m k) [k + 1..<n]"
    by (simp add: panel_calls_def trsm_call_def comp_def)
  moreover have "inj_on (\<lambda>m. tile n m k) (set [k + 1..<n])"
    by (rule inj_onI) (auto simp add: tile_inj)
  ultimately show "distinct (map writes (panel_calls n k))"
    by (simp add: distinct_map)
next
  fix c d
  assume "c \<in> set (panel_calls n k)" "d \<in> set (panel_calls n k)" "writes c \<in> set (reads d)"
  then show "c = d"
    by (auto simp add: set_panel_calls trsm_call_def tile_inj)
qed


lemma distinct_concat_upt:
  assumes "\<And>m. a \<le> m \<Longrightarrow> m < b \<Longrightarrow> distinct (f m)"
    and "\<And>m m' x. a \<le> m \<Longrightarrow> m < m' \<Longrightarrow> m' < b \<Longrightarrow> x \<in> set (f m) \<Longrightarrow> x \<in> set (f m') \<Longrightarrow> False"
  shows "distinct (concat (map f [a..<b]))"
  using assms
proof (induction b)
  case 0
  then show ?case by simp
next
  case (Suc b)
  show ?case
  proof (cases "a \<le> b")
    case True
    have "distinct (concat (map f [a..<b]))"
      using Suc.prems by (intro Suc.IH) (auto simp add: less_Suc_eq)
    moreover have "distinct (f b)"
      using Suc.prems(1) True by simp
    moreover have "x \<notin> set (f b)" if "x \<in> set (f m)" "a \<le> m" "m < b" for x m
      using Suc.prems(2) [of m b x] that by auto
    ultimately show ?thesis
      using True by (auto simp add: upt_Suc_append)
  next
    case False
    then show ?thesis by simp
  qed
qed

lemma update_calls_independent: "pairwise_independent (update_calls n k)"
proof (rule pairwise_independentI)
  let ?row = "\<lambda>m. tile n m m # map (tile n m) [Suc k..<m]"
  have "map writes (update_calls n k) = concat (map ?row [Suc k..<n])"
    by (simp add: update_calls_def update_row_def syrk_call_def gemm_call_def comp_def map_concat)
  moreover have "distinct (concat (map ?row [Suc k..<n]))"
  proof (rule distinct_concat_upt)
    fix m
    assume m: "Suc k \<le> m" "m < n"
    have "inj_on (tile n m) (set [Suc k..<m])"
      by (rule inj_onI) (use m in \<open>auto simp add: tile_inj\<close>)
    with m show "distinct (?row m)"
      by (auto simp add: distinct_map tile_inj)
  next
    fix m m' x
    assume "Suc k \<le> m" "m < m'" "m' < n" "x \<in> set (?row m)" "x \<in> set (?row m')"
    then show False
      by (auto simp add: tile_inj)
  qed
  ultimately show "distinct (map writes (update_calls n k))"
    by simp
next
  fix c d
  assume "c \<in> set (update_calls n k)" "d \<in> set (update_calls n k)" "writes c \<in> set (reads d)"
  then show "c = d"
    by (auto simp add: set_update_calls syrk_call_def gemm_call_def tile_inj)
qed

lemma update_reads_panel:
  assumes "u \<in> set (update_calls n k)"
  shows "\<exists>p\<in>set (panel_calls n k). writes p \<in> set (reads u)"
proof -
  from assms obtain m where m: "k < m" "m < n" and u: "tile n m k \<in> set (reads u)"
    by (auto simp add: set_update_calls syrk_call_def gemm_call_def)
  from m have "trsm_call n k m \<in> set (panel_calls n k)"
    by (auto simp add: set_panel_calls)
  moreover from u have "writes (trsm_call n k m) \<in> set (reads u)"
    by (simp add: trsm_call_def)
  ultimately show ?thesis
    by (rule rev_bexI)
qed

lemma stages_chained:
  assumes "Suc k < n"
  shows "\<exists>p\<in>set (panel_calls n k). \<exists>u\<in>set (update_calls n k).
           writes (potrf_call n k) \<in> set (reads p) \<and> writes p \<in> set (reads u)
           \<and> writes u \<in> set (reads (potrf_call n (Suc k)))"
proof -
  have "trsm_call n k (Suc k) \<in> set (panel_calls n k)"
    using assms by (auto simp add: set_panel_calls)
  moreover have "syrk_call n k (Suc k) \<in> set (update_calls n k)"
    using assms by (auto simp add: set_update_calls)
  ultimately show ?thesis
    by (rule_tac x = "trsm_call n k (Suc k)" in bexI, rule_tac x = "syrk_call n k (Suc k)" in bexI)
       (simp_all add: potrf_call_def trsm_call_def syrk_call_def)
qed

text \<open>
  A single tile (\<open>n_tiles = 1\<close>, the structural part of claim C3): the routine
  issues one factorization, of slot 0, and the slot then holds \<open>mkl_potrf\<close>
  applied to the tile that was there; nothing else changes.
\<close>

lemma cholesky_single_tile:
  "right_looking_cholesky_tiled_mkl K N 1 s =
     s\<lparr>store := (store s)(Ft_tiles := (store s Ft_tiles)[0 := mkl_potrf K (store s Ft_tiles ! 0) N]),
       issued := issued s @ [Call Mkl_potrf [(Ft_tiles, 0)] (Ft_tiles, 0)]\<rparr>"
  by (simp add: right_looking_cholesky_tiled_mkl_def for_up_fold Let_def dataflow1_def
      assign_def rd_def tile_def)

text \<open>
  Two tiles per side, symbolically: the panel tile is solved against the
  factored diagonal tile, and the last diagonal tile is factored after its rank
  update with the solved panel tile. Slot 1, above the diagonal, is not touched.
\<close>

lemma cholesky_two_tiles_dataflow:
  "store (right_looking_cholesky_tiled_mkl symbolic_mkl N 2 (initial 4)) Ft_tiles =
     [Task Mkl_potrf [Input Ft_tiles 0],
      Input Ft_tiles 1,
      Task Mkl_trsm [Task Mkl_potrf [Input Ft_tiles 0], Input Ft_tiles 2],
      Task Mkl_potrf
        [Task Mkl_syrk
           [Input Ft_tiles 3,
            Task Mkl_trsm [Task Mkl_potrf [Input Ft_tiles 0], Input Ft_tiles 2]]]]"
  by (simp add: right_looking_cholesky_tiled_mkl_def for_up_fold for_up_eq_fold Let_def
      dataflow1_def dataflow2_def dataflow3_def rd_def tile_def symbolic_mkl_def initial_def
      upt_conv_Cons numeral_2_eq_2)

subsection \<open>The pattern\<close>

text \<open>
  Claim C1, as stated, with its last sentence read literally: every two of the
  panel (TRSM) and update (SYRK, GEMM) invocations of one stage are
  independent. That fails for two tiles per side already: at stage 0 the
  triangular solve writes panel tile \<open>(1,0)\<close>, and the rank update of tile
  \<open>(1,1)\<close> reads it.
\<close>

theorem panel_and_update_calls_conflict:
  "\<not> pairwise_independent (panel_calls 2 0 @ update_calls 2 0)"
  by code_simp

text \<open>
  Claim C1, amended. For every number of tiles, the factorization issues
  exactly the invocations of \<open>cholesky_calls\<close>, in that order: per stage \<open>k\<close>
  the factorization of tile \<open>(k,k)\<close>, then for each \<open>m > k\<close> the triangular
  solve of tile \<open>(m,k)\<close> reading tile \<open>(k,k)\<close>, then for each \<open>m > k\<close> the rank
  update of tile \<open>(m,m)\<close> reading tile \<open>(m,k)\<close> followed by the matrix updates of
  the tiles \<open>(m,j)\<close>, \<open>k < j < m\<close>, reading the tiles \<open>(m,k)\<close> and \<open>(j,k)\<close>; no
  other slot is read or written. Within a stage the panel invocations are
  pairwise independent and the update invocations are pairwise independent,
  while every update invocation reads a tile that a panel invocation of its
  stage writes. Successive stages are chained: the factorization of stage
  \<open>k + 1\<close> reads the tile written by an update of stage \<open>k\<close>, which reads the
  tile written by a panel invocation of stage \<open>k\<close>, which reads the diagonal
  tile factored at stage \<open>k\<close>.
\<close>

theorem cholesky_invocation_pattern:
  "issued (right_looking_cholesky_tiled_mkl K N n s) = issued s @ cholesky_calls n
   \<and> (\<forall>k. pairwise_independent (panel_calls n k) \<and> pairwise_independent (update_calls n k))
   \<and> (\<forall>k. \<forall>u\<in>set (update_calls n k). \<exists>p\<in>set (panel_calls n k). writes p \<in> set (reads u))
   \<and> (\<forall>k. Suc k < n \<longrightarrow>
         (\<exists>p\<in>set (panel_calls n k). \<exists>u\<in>set (update_calls n k).
            writes (potrf_call n k) \<in> set (reads p) \<and> writes p \<in> set (reads u)
            \<and> writes u \<in> set (reads (potrf_call n (Suc k)))))"
  using issued_cholesky panel_calls_independent update_calls_independent update_reads_panel
    stages_chained
  by blast

theorem cholesky_invocation_pattern_three_tiles:
  "issued (right_looking_cholesky_tiled_mkl symbolic_mkl 2 3 (initial 9)) =
     [Call Mkl_potrf [(Ft_tiles, 0)] (Ft_tiles, 0),
      Call Mkl_trsm [(Ft_tiles, 0), (Ft_tiles, 3)] (Ft_tiles, 3),
      Call Mkl_trsm [(Ft_tiles, 0), (Ft_tiles, 6)] (Ft_tiles, 6),
      Call Mkl_syrk [(Ft_tiles, 4), (Ft_tiles, 3)] (Ft_tiles, 4),
      Call Mkl_syrk [(Ft_tiles, 8), (Ft_tiles, 6)] (Ft_tiles, 8),
      Call Mkl_gemm [(Ft_tiles, 6), (Ft_tiles, 3), (Ft_tiles, 7)] (Ft_tiles, 7),
      Call Mkl_potrf [(Ft_tiles, 4)] (Ft_tiles, 4),
      Call Mkl_trsm [(Ft_tiles, 4), (Ft_tiles, 7)] (Ft_tiles, 7),
      Call Mkl_syrk [(Ft_tiles, 8), (Ft_tiles, 7)] (Ft_tiles, 8),
      Call Mkl_potrf [(Ft_tiles, 8)] (Ft_tiles, 8)]
   \<and> pairwise_independent (panel_calls 3 0) \<and> pairwise_independent (update_calls 3 0)"
proof -
  note inst = cholesky_invocation_pattern [of symbolic_mkl 2 3 "initial 9"]
  have "issued (initial 9) @ cholesky_calls 3 =
     [Call Mkl_potrf [(Ft_tiles, 0)] (Ft_tiles, 0),
      Call Mkl_trsm [(Ft_tiles, 0), (Ft_tiles, 3)] (Ft_tiles, 3),
      Call Mkl_trsm [(Ft_tiles, 0), (Ft_tiles, 6)] (Ft_tiles, 6),
      Call Mkl_syrk [(Ft_tiles, 4), (Ft_tiles, 3)] (Ft_tiles, 4),
      Call Mkl_syrk [(Ft_tiles, 8), (Ft_tiles, 6)] (Ft_tiles, 8),
      Call Mkl_gemm [(Ft_tiles, 6), (Ft_tiles, 3), (Ft_tiles, 7)] (Ft_tiles, 7),
      Call Mkl_potrf [(Ft_tiles, 4)] (Ft_tiles, 4),
      Call Mkl_trsm [(Ft_tiles, 4), (Ft_tiles, 7)] (Ft_tiles, 7),
      Call Mkl_syrk [(Ft_tiles, 8), (Ft_tiles, 7)] (Ft_tiles, 8),
      Call Mkl_potrf [(Ft_tiles, 8)] (Ft_tiles, 8)]"
    by code_simp
  with inst show ?thesis
    by simp
qed

section \<open>The Adam update\<close>

subsection \<open>The task log does not influence the values\<close>

lemma fold_pair:
  assumes "\<And>x a l. x \<in> set xs \<Longrightarrow> body x (a, l) = (f x a, l @ p x)"
  shows "fold body xs (a, l) = (fold f xs a, l @ concat (map p xs))"
  using assms by (induction xs arbitrary: a l) simp_all

lemma for_up_pair:
  assumes "\<And>x a l. body x (a, l) = (f x a, l @ p x)"
  shows "for_up i hi body (a, l) = (for_up i hi f a, l @ concat (map p [i..<hi]))"
  unfolding for_up_fold by (rule fold_pair) (simp add: assms)

lemma gen_diag_tiles_log:
  "gen_diag_tiles H N n lg = (fst (gen_diag_tiles H N n []), lg @ snd (gen_diag_tiles H N n []))"
  unfolding gen_diag_tiles_def
  by (subst (1 2 3) for_up_pair [where f = "\<lambda>d dt. dt @ [gen_tile_zeros_diag H N]" and p = "\<lambda>d. [Gen_tile_zeros_diag d]"])
     simp_all

lemma fill_diag_tiles_log:
  "fill_diag_tiles H ft_tiles ft_rhs N n (dt, lg)
   = (fst (fill_diag_tiles H ft_tiles ft_rhs N n (dt, [])),
      lg @ snd (fill_diag_tiles H ft_tiles ft_rhs N n (dt, [])))"
proof -
  let ?f = "\<lambda>i j dt. dt[i := mkl_gemm_diag H (ft_tiles ! (i * n + j)) (ft_rhs ! (j * n + i)) (dt ! i) N]"
  have inner: "for_up 0 n (\<lambda>j (dt, lg). (?f i j dt, lg @ [Mkl_gemm_diag i j])) (dt, lg)
      = (for_up 0 n (?f i) dt, lg @ concat (map (\<lambda>j. [Mkl_gemm_diag i j]) [0..<n]))" for i dt lg
    by (rule for_up_pair) simp
  have outer: "fill_diag_tiles H ft_tiles ft_rhs N n (dt, lg)
      = (for_up 0 n (\<lambda>i. for_up 0 n (?f i)) dt,
         lg @ concat (map (\<lambda>i. concat (map (\<lambda>j. [Mkl_gemm_diag i j]) [0..<n])) [0..<n]))" for lg
    unfolding fill_diag_tiles_def
    by (rule for_up_pair) (simp add: inner)
  show ?thesis
    by (simp add: outer)
qed

lemma diag_gradient_log:
  "diag_gradient H ft_tiles ft_rhs N n lg
   = (fst (diag_gradient H ft_tiles ft_rhs N n []), lg @ snd (diag_gradient H ft_tiles ft_rhs N n []))"
proof -
  obtain d0 l0 where g: "gen_diag_tiles H N n [] = (d0, l0)" by (cases "gen_diag_tiles H N n []")
  obtain d1 l1 where f: "fill_diag_tiles H ft_tiles ft_rhs N n (d0, []) = (d1, l1)"
    by (cases "fill_diag_tiles H ft_tiles ft_rhs N n (d0, [])")
  have g': "gen_diag_tiles H N n lg = (d0, lg @ l0)" for lg
    using gen_diag_tiles_log [of H N n lg] by (simp add: g)
  have f': "fill_diag_tiles H ft_tiles ft_rhs N n (d0, lg) = (d1, lg @ l1)" for lg
    using fill_diag_tiles_log [of H ft_tiles ft_rhs N n d0 lg] by (simp add: f)
  show ?thesis
    by (simp add: diag_gradient_def g' f')
qed

lemma diag_gradient_with_adam_spec [simp]:
  "diag_gradient (with_adam_spec H) = diag_gradient H"
  by (simp add: fun_eq_iff diag_gradient_def fill_diag_tiles_def gen_diag_tiles_def with_adam_spec_def)

lemma scalar_gradient:
  "diag_gradient scalar_helpers [1] [1] 1 1 lg =
     (1, lg @ [Gen_tile_zeros_diag 0, Mkl_gemm_diag 0 0, Compute_gradient])"
  "diag_gradient scalar_helpers [1] [1] (Suc 0) (Suc 0) lg =
     (1, lg @ [Gen_tile_zeros_diag 0, Mkl_gemm_diag 0 0, Compute_gradient])"
  by (simp_all add: diag_gradient_def fill_diag_tiles_def gen_diag_tiles_def for_up_fold
      scalar_helpers_def with_adam_spec_def)

lemma adam_step_with_adam_spec:
  "adam_step (with_adam_spec H) g beta1_T beta2_T iter i noise lg opt =
     (case adam_rule g beta1_T beta2_T iter i opt of (m, v, theta) \<Rightarrow>
        \<lparr>hyperparameters = (hyperparameters opt)[i := theta],
         m_T = (m_T opt)[i := m], v_T = (v_T opt)[i := v],
         scheduled = lg @ [To_unconstrained, Update_fist_moment, Update_second_moment,
                           Update_param, To_constrained]\<rparr>)"
  by (simp add: adam_step_def with_adam_spec_def adam_rule_def Let_def
      to_unconstrained_spec_def to_constrained_spec_def update_fist_moment_spec_def
      update_second_moment_spec_def update_param_spec_def)

lemma hyperparameters_adam_step [simp]:
  "hyperparameters (adam_step H g beta1_T beta2_T iter i noise lg opt) =
     (hyperparameters opt)[i := to_constrained H
        (update_param H (to_unconstrained H (hyperparameters opt ! i) noise) (hyperparameters opt) g
           (update_fist_moment H g (m_T opt ! i) (hyperparameters opt ! 4))
           (update_second_moment H g (v_T opt ! i) (hyperparameters opt ! 5))
           beta1_T beta2_T iter) noise]"
  by (simp add: adam_step_def Let_def)

lemma scalar_helpers_fields [simp]:
  "to_unconstrained scalar_helpers = to_unconstrained_spec"
  "to_constrained scalar_helpers = to_constrained_spec"
  "update_fist_moment scalar_helpers = update_fist_moment_spec"
  "update_second_moment scalar_helpers = update_second_moment_spec"
  "update_param scalar_helpers = update_param_spec"
  "compute_gradient_noise scalar_helpers =
     (\<lambda>ft_tiles hp N n_tiles. sum_list (map (\<lambda>d. ft_tiles ! (d * n_tiles + d)) [0..<n_tiles]))"
  by (simp_all add: scalar_helpers_def with_adam_spec_def)

lemma with_adam_spec_scalar_helpers [simp]: "with_adam_spec scalar_helpers = scalar_helpers"
  by (simp add: scalar_helpers_def with_adam_spec_def)

lemma update_hyperparameter_valid:
  "param_idx = 0 \<or> param_idx = 1 \<Longrightarrow>
   update_hyperparameter H ft_tiles ft_rhs N n_tiles beta1_T beta2_T iter param_idx opt =
     (None, adam_step H (fst (diag_gradient H ft_tiles ft_rhs N n_tiles (scheduled opt)))
              beta1_T beta2_T iter (nat param_idx) False
              (snd (diag_gradient H ft_tiles ft_rhs N n_tiles (scheduled opt))) opt)"
  by (simp add: update_hyperparameter_def split: prod.splits)

subsection \<open>The rule\<close>

text \<open>
  Claim C6. With the five Adam helper functions as the specification gives
  them, \<open>update_hyperparameter\<close> (for the indices 0 and 1) and
  \<open>update_noise_variance\<close> apply the Adam rule to the slot they update: the
  old parameter is taken to unconstrained space, the moments become
  \<open>\<beta>1 * m + (1 - \<beta>1) * g\<close> and \<open>\<beta>2 * v + (1 - \<beta>2) * g\<^sup>2\<close>, the new moments are
  bias-corrected with the power accumulators of the iteration, the
  unconstrained parameter is decremented by \<open>lr * m_hat / (sqrt v_hat + \<epsilon>)\<close>
  and the result is mapped back and stored in the slot; the gradient is the
  one the tiled trace computation yields (or the noise gradient).
\<close>

theorem updates_apply_adam_rule:
  assumes "param_idx = 0 \<or> param_idx = 1"
  shows "update_hyperparameter (with_adam_spec H) ft_tiles ft_rhs N n_tiles beta1_T beta2_T
           iter param_idx opt =
         (case diag_gradient H ft_tiles ft_rhs N n_tiles (scheduled opt) of (g, lg) \<Rightarrow>
          case adam_rule g beta1_T beta2_T iter (nat param_idx) opt of (m, v, theta) \<Rightarrow>
            (None, \<lparr>hyperparameters = (hyperparameters opt)[nat param_idx := theta],
                    m_T = (m_T opt)[nat param_idx := m],
                    v_T = (v_T opt)[nat param_idx := v],
                    scheduled = lg @ [To_unconstrained, Update_fist_moment,
                      Update_second_moment, Update_param, To_constrained]\<rparr>))
       \<and> update_noise_variance (with_adam_spec H) ft_tiles N n_tiles beta1_T beta2_T iter opt =
         (case adam_rule (compute_gradient_noise H ft_tiles (hyperparameters opt) N n_tiles)
                 beta1_T beta2_T iter 2 opt of (m, v, theta) \<Rightarrow>
            (None, \<lparr>hyperparameters = (hyperparameters opt)[2 := theta],
                    m_T = (m_T opt)[2 := m],
                    v_T = (v_T opt)[2 := v],
                    scheduled = scheduled opt @ [Compute_gradient_noise, To_unconstrained,
                      Update_fist_moment, Update_second_moment, Update_param,
                      To_constrained]\<rparr>))"
proof
  show "update_hyperparameter (with_adam_spec H) ft_tiles ft_rhs N n_tiles beta1_T beta2_T
           iter param_idx opt =
         (case diag_gradient H ft_tiles ft_rhs N n_tiles (scheduled opt) of (g, lg) \<Rightarrow>
          case adam_rule g beta1_T beta2_T iter (nat param_idx) opt of (m, v, theta) \<Rightarrow>
            (None, \<lparr>hyperparameters = (hyperparameters opt)[nat param_idx := theta],
                    m_T = (m_T opt)[nat param_idx := m],
                    v_T = (v_T opt)[nat param_idx := v],
                    scheduled = lg @ [To_unconstrained, Update_fist_moment,
                      Update_second_moment, Update_param, To_constrained]\<rparr>))"
    using assms
    by (auto simp add: update_hyperparameter_def adam_step_with_adam_spec split: prod.splits)
next
  have "compute_gradient_noise (with_adam_spec H) = compute_gradient_noise H"
    by (simp add: with_adam_spec_def)
  then show "update_noise_variance (with_adam_spec H) ft_tiles N n_tiles beta1_T beta2_T iter opt =
         (case adam_rule (compute_gradient_noise H ft_tiles (hyperparameters opt) N n_tiles)
                 beta1_T beta2_T iter 2 opt of (m, v, theta) \<Rightarrow>
            (None, \<lparr>hyperparameters = (hyperparameters opt)[2 := theta],
                    m_T = (m_T opt)[2 := m],
                    v_T = (v_T opt)[2 := v],
                    scheduled = scheduled opt @ [Compute_gradient_noise, To_unconstrained,
                      Update_fist_moment, Update_second_moment, Update_param,
                      To_constrained]\<rparr>))"
    by (simp add: update_noise_variance_def adam_step_with_adam_spec Let_def split: prod.splits)
qed

theorem updates_apply_adam_rule_example:
  "update_hyperparameter (with_adam_spec scalar_helpers) [1] [1] 1 1 [1 / 2] [0] 0 0 opt0 =
     (None, \<lparr>hyperparameters = [exp (- (1 / 2)), 1, 1, 1, 1 / 2, 0, 1],
             m_T = [1 / 2, 0, 0], v_T = [1, 0, 0],
             scheduled = [Gen_tile_zeros_diag 0, Mkl_gemm_diag 0 0, Compute_gradient,
               To_unconstrained, Update_fist_moment, Update_second_moment, Update_param,
               To_constrained]\<rparr>)
   \<and> update_noise_variance (with_adam_spec scalar_helpers) [1] 1 1 [1 / 2] [0] 0 opt0 =
     (None, \<lparr>hyperparameters = [1, 1, exp (- (1 / 2)), 1, 1 / 2, 0, 1],
             m_T = [0, 0, 1 / 2], v_T = [0, 0, 1],
             scheduled = [Compute_gradient_noise, To_unconstrained, Update_fist_moment,
               Update_second_moment, Update_param, To_constrained]\<rparr>)"
proof -
  have idx: "(0::int) = 0 \<or> (0::int) = 1"
    by simp
  show ?thesis
    using updates_apply_adam_rule [OF idx, of scalar_helpers "[1]" "[1]" 1 1 "[1 / 2]" "[0]" 0 opt0]
    by (simp add: scalar_gradient adam_rule_def opt0_def Let_def)
qed

subsection \<open>The valid domain\<close>

text \<open>
  With the reparametrization of the specification over the reals, an update
  cannot leave the valid domain: the exponential is positive.
\<close>

lemma exact_update_stays_in_domain:
  assumes "3 \<le> length (hyperparameters opt)" and "valid_domain (hyperparameters opt)"
  shows "valid_domain (hyperparameters (snd (update_hyperparameter (with_adam_spec H) ft_tiles
            ft_rhs N n_tiles beta1_T beta2_T iter param_idx opt)))
       \<and> valid_domain (hyperparameters (snd (update_noise_variance (with_adam_spec H) ft_tiles
            N n_tiles beta1_T beta2_T iter opt)))"
proof -
  have "to_constrained (with_adam_spec H) = to_constrained_spec"
    by (simp add: with_adam_spec_def)
  with assms show ?thesis
    by (auto simp add: update_hyperparameter_def update_noise_variance_def valid_domain_def
        to_constrained_spec_def Let_def nth_list_update split: prod.splits)
qed

text \<open>The program stores a double. Two bounds on the exponential.\<close>

lemma exp_2000_underflows: "exp (- 2000 :: real) \<le> 1 / 2 ^ 1075"
proof -
  have "(2::real) \<le> exp 1"
    using exp_ge_add_one_self [of "1::real"] by simp
  then have "(2::real) ^ 2000 \<le> exp 1 ^ 2000"
    by (rule power_mono) simp
  moreover have "(2::real) ^ 1075 \<le> 2 ^ 2000"
    by (rule power_increasing) simp_all
  moreover have "exp (2000::real) = exp 1 ^ 2000"
    using exp_of_nat_mult [of 2000 "1::real"] by simp
  ultimately have "(2::real) ^ 1075 \<le> exp 2000"
    by linarith
  then have "1 / exp (2000::real) \<le> 1 / 2 ^ 1075"
    by (intro divide_left_mono) (simp_all del: power_numeral)
  then show ?thesis
    by (simp only: exp_minus inverse_eq_divide)
qed

lemma exp_half_no_underflow: "1 / 2 ^ 1075 < exp (- (1 / 2) :: real)"
proof -
  have "exp (1 / 2 :: real) \<le> exp 1"
    by simp
  also have "\<dots> \<le> 3"
    by (rule exp_le)
  also have "(3::real) < 2 ^ 2"
    by simp
  also have "(2::real) ^ 2 \<le> 2 ^ 1075"
    by (rule power_increasing) simp_all
  finally have "exp (1 / 2 :: real) < 2 ^ 1075" .
  then have "1 / 2 ^ 1075 < 1 / exp (1 / 2 :: real)"
    by (intro divide_strict_left_mono) (simp_all del: power_numeral)
  then show ?thesis
    by (simp only: exp_minus inverse_eq_divide)
qed


lemma double_underflow_nonneg: "0 \<le> x \<Longrightarrow> 0 \<le> double_underflow x"
  by (simp add: double_underflow_def)

lemma double_underflow_pos_iff: "0 \<le> x \<Longrightarrow> 0 < double_underflow x \<longleftrightarrow> 1 / 2 ^ 1075 < x"
proof -
  have "(0::real) < 1 / 2 ^ 1075"
    by (simp del: power_numeral)
  then have "0 < x" if "1 / 2 ^ 1075 < x"
    using that by (rule less_trans)
  then show "0 \<le> x \<Longrightarrow> 0 < double_underflow x \<longleftrightarrow> 1 / 2 ^ 1075 < x"
    by (auto simp add: double_underflow_def not_le simp del: power_numeral)
qed

lemma diag_gradient_with_double_storage [simp]:
  "diag_gradient (with_double_storage H) = diag_gradient H"
  by (simp add: fun_eq_iff diag_gradient_def fill_diag_tiles_def gen_diag_tiles_def
      with_double_storage_def)

lemma compute_gradient_noise_with_double_storage [simp]:
  "compute_gradient_noise (with_double_storage H) = compute_gradient_noise H"
  by (simp add: with_double_storage_def)

lemma hyperparameters_adam_step_double:
  "hyperparameters (adam_step (with_double_storage H) g beta1_T beta2_T iter i noise lg opt) =
     (hyperparameters opt)[i := double_underflow
        (exp (updated_unconstrained H g beta1_T beta2_T iter i noise opt))]"
  by (simp add: adam_step_def updated_unconstrained_def with_double_storage_def
      to_constrained_double_def Let_def)

lemma stored_double:
  fixes hp :: "real list"
  assumes "i < length hp" and "hp' = hp[i := double_underflow (exp u)]"
  shows "0 \<le> hp' ! i \<and> (0 < hp' ! i \<longleftrightarrow> 1 / 2 ^ 1075 < exp u)
       \<and> (0 \<le> hp ! 1 \<and> 0 \<le> hp ! 2 \<longrightarrow> 0 \<le> hp' ! 1 \<and> 0 \<le> hp' ! 2)
       \<and> (valid_domain hp \<and> 1 / 2 ^ 1075 < exp u \<longrightarrow> valid_domain hp')
       \<and> ((i = 1 \<or> i = 2) \<and> exp u \<le> 1 / 2 ^ 1075 \<longrightarrow> \<not> valid_domain hp')"
proof -
  have e: "0 \<le> exp u"
    by simp
  note p = double_underflow_pos_iff [OF e] and n = double_underflow_nonneg [OF e]
  have 1: "0 \<le> hp' ! i" and 2: "0 < hp' ! i \<longleftrightarrow> 1 / 2 ^ 1075 < exp u"
    using assms p n by (simp_all del: power_numeral)
  have 3: "0 \<le> hp' ! 1 \<and> 0 \<le> hp' ! 2" if "0 \<le> hp ! 1 \<and> 0 \<le> hp ! 2"
    using that assms n by (simp add: nth_list_update del: power_numeral)
  have 4: "valid_domain hp'" if "valid_domain hp \<and> 1 / 2 ^ 1075 < exp u"
    using that assms p by (simp add: valid_domain_def nth_list_update del: power_numeral)
  have 5: "\<not> valid_domain hp'" if "(i = 1 \<or> i = 2) \<and> exp u \<le> 1 / 2 ^ 1075"
    using that assms p by (auto simp add: valid_domain_def nth_list_update simp del: power_numeral)
  from 1 2 3 4 5 show ?thesis
    by blast
qed




subsection \<open>Order of updates, repeated updates\<close>

lemma adam_step_poke:
  assumes frame: "\<forall>u hp j x g m v b1 b2 it. j < 3 \<longrightarrow>
            update_param H u (hp[j := x]) g m v b1 b2 it = update_param H u hp g m v b1 b2 it"
    and "j \<noteq> i" and "j < 3"
  shows "adam_step H g beta1_T beta2_T iter i noise lg (poke j x y z opt)
         = poke j x y z (adam_step H g beta1_T beta2_T iter i noise lg opt)"
  using assms(2,3) frame
  by (simp add: adam_step_def poke_def Let_def list_update_swap [of j i])

lemma update_hyperparameter_poke:
  assumes frame: "\<forall>u hp j x g m v b1 b2 it. j < 3 \<longrightarrow>
            update_param H u (hp[j := x]) g m v b1 b2 it = update_param H u hp g m v b1 b2 it"
    and i: "param_idx = 0 \<or> param_idx = 1" and j: "j \<noteq> nat param_idx" "j < 3"
  shows "snd (update_hyperparameter H ft_tiles ft_rhs N n_tiles beta1_T beta2_T iter param_idx
                (poke j x y z opt))
         = poke j x y z (snd (update_hyperparameter H ft_tiles ft_rhs N n_tiles beta1_T beta2_T
                iter param_idx opt))"
proof -
  have "scheduled (poke j x y z opt) = scheduled opt"
    by (simp add: poke_def)
  then show ?thesis
    using adam_step_poke [OF frame j] by (simp add: update_hyperparameter_valid [OF i])
qed

lemma update_hyperparameter_commute:
  assumes frame: "\<forall>u hp j x g m v b1 b2 it. j < 3 \<longrightarrow>
            update_param H u (hp[j := x]) g m v b1 b2 it = update_param H u hp g m v b1 b2 it"
  shows "snd (update_hyperparameter H ft_tiles ft_rhs N n_tiles beta1_T beta2_T iter 1
            (snd (update_hyperparameter H ft_tiles ft_rhs N n_tiles beta1_T beta2_T iter 0 opt)))
       = snd (update_hyperparameter H ft_tiles ft_rhs N n_tiles beta1_T beta2_T iter 0
            (snd (update_hyperparameter H ft_tiles ft_rhs N n_tiles beta1_T beta2_T iter 1 opt)))"
proof -
  obtain g l where g0: "diag_gradient H ft_tiles ft_rhs N n_tiles [] = (g, l)"
    by (cases "diag_gradient H ft_tiles ft_rhs N n_tiles []")
  have g: "diag_gradient H ft_tiles ft_rhs N n_tiles lg = (g, lg @ l)" for lg
    using diag_gradient_log [of H ft_tiles ft_rhs N n_tiles lg] by (simp add: g0)
  have f0: "update_param H u (hp[0 := x]) g m v b1 b2 it = update_param H u hp g m v b1 b2 it"
    for u hp x g m v b1 b2 it
    using frame by simp
  have f1: "update_param H u (hp[Suc 0 := x]) g m v b1 b2 it = update_param H u hp g m v b1 b2 it"
    for u hp x g m v b1 b2 it
    using frame by simp
  show ?thesis
    by (simp add: update_hyperparameter_def g adam_step_def Let_def f0 f1
        list_update_swap [of 0 "Suc 0"])
qed

lemma scalar_update_once:
  "snd (update_hyperparameter scalar_helpers [1] [1] 1 1 [1 / 2] [0] 0 0 opt0) =
     \<lparr>hyperparameters = [exp (- (1 / 2)), 1, 1, 1, 1 / 2, 0, 1],
      m_T = [1 / 2, 0, 0], v_T = [1, 0, 0],
      scheduled = [Gen_tile_zeros_diag 0, Mkl_gemm_diag 0 0, Compute_gradient,
        To_unconstrained, Update_fist_moment, Update_second_moment, Update_param,
        To_constrained]\<rparr>"
  by (simp add: update_hyperparameter_def scalar_gradient adam_step_def opt0_def Let_def
      to_unconstrained_spec_def to_constrained_spec_def update_fist_moment_spec_def
      update_second_moment_spec_def update_param_spec_def)

lemma scalar_update_twice:
  "hyperparameters (snd (update_hyperparameter scalar_helpers [1] [1] 1 1 [1 / 2] [0] 0 0
      (snd (update_hyperparameter scalar_helpers [1] [1] 1 1 [1 / 2] [0] 0 0 opt0))))
   = [exp (- (5 / 4)), 1, 1, 1, 1 / 2, 0, 1]"
  unfolding scalar_update_once
  by (simp add: update_hyperparameter_def scalar_gradient adam_step_def Let_def
      to_unconstrained_spec_def to_constrained_spec_def update_fist_moment_spec_def
      update_second_moment_spec_def update_param_spec_def)

lemma update_not_idempotent:
  "\<exists>ft_tiles ft_rhs beta1_T beta2_T opt.
     hyperparameters (snd (update_hyperparameter scalar_helpers ft_tiles ft_rhs 1 1
        beta1_T beta2_T 0 0
        (snd (update_hyperparameter scalar_helpers ft_tiles ft_rhs 1 1 beta1_T beta2_T 0 0 opt)))) ! 0
     \<noteq> hyperparameters (snd (update_hyperparameter scalar_helpers ft_tiles ft_rhs 1 1
        beta1_T beta2_T 0 0 opt)) ! 0"
proof -
  have "hyperparameters (snd (update_hyperparameter scalar_helpers [1] [1] 1 1 [1 / 2] [0] 0 0
      (snd (update_hyperparameter scalar_helpers [1] [1] 1 1 [1 / 2] [0] 0 0 opt0)))) ! 0
     \<noteq> hyperparameters (snd (update_hyperparameter scalar_helpers [1] [1] 1 1
        [1 / 2] [0] 0 0 opt0)) ! 0"
    unfolding scalar_update_twice unfolding scalar_update_once by simp
  then show ?thesis
    by blast
qed

text \<open>
  Claim C8. Provided \<open>update_param\<close> does not read the three tunable slots of
  the hyperparameter array it is handed (it reads the scheduling scalars),
  updating the parameters 0 and 1 in either order leaves the same optimizer
  state: same hyperparameters, same moments. The reason is that the update of
  slot \<open>i\<close> commutes with any write to the hyperparameter and the moments of
  another slot \<open>j\<close>: it neither reads nor writes them. The update is not
  idempotent: with the helper functions of the specification there are inputs
  for which a second application with the same gradient moves the parameter
  again.
\<close>

theorem adam_update_order_insensitive_not_idempotent:
  assumes frame: "\<forall>u hp j x g m v b1 b2 it. j < 3 \<longrightarrow>
            update_param H u (hp[j := x]) g m v b1 b2 it = update_param H u hp g m v b1 b2 it"
  shows "snd (update_hyperparameter H ft_tiles ft_rhs N n_tiles beta1_T beta2_T iter 1
            (snd (update_hyperparameter H ft_tiles ft_rhs N n_tiles beta1_T beta2_T iter 0 opt)))
       = snd (update_hyperparameter H ft_tiles ft_rhs N n_tiles beta1_T beta2_T iter 0
            (snd (update_hyperparameter H ft_tiles ft_rhs N n_tiles beta1_T beta2_T iter 1 opt)))
     \<and> (\<forall>param_idx j x y z. (param_idx = 0 \<or> param_idx = 1) \<and> j \<noteq> nat param_idx \<and> j < 3 \<longrightarrow>
          snd (update_hyperparameter H ft_tiles ft_rhs N n_tiles beta1_T beta2_T iter param_idx
                (poke j x y z opt))
          = poke j x y z (snd (update_hyperparameter H ft_tiles ft_rhs N n_tiles beta1_T beta2_T
                iter param_idx opt)))
     \<and> (\<exists>ft_tiles ft_rhs beta1_T beta2_T opt.
          hyperparameters (snd (update_hyperparameter scalar_helpers ft_tiles ft_rhs 1 1
             beta1_T beta2_T 0 0
             (snd (update_hyperparameter scalar_helpers ft_tiles ft_rhs 1 1 beta1_T beta2_T 0 0
                opt)))) ! 0
          \<noteq> hyperparameters (snd (update_hyperparameter scalar_helpers ft_tiles ft_rhs 1 1
             beta1_T beta2_T 0 0 opt)) ! 0)"
proof (intro conjI allI impI)
  show "snd (update_hyperparameter H ft_tiles ft_rhs N n_tiles beta1_T beta2_T iter 1
            (snd (update_hyperparameter H ft_tiles ft_rhs N n_tiles beta1_T beta2_T iter 0 opt)))
       = snd (update_hyperparameter H ft_tiles ft_rhs N n_tiles beta1_T beta2_T iter 0
            (snd (update_hyperparameter H ft_tiles ft_rhs N n_tiles beta1_T beta2_T iter 1 opt)))"
    by (rule update_hyperparameter_commute [OF frame])
next
  fix param_idx :: int and j :: nat and x y z :: real
  assume "(param_idx = 0 \<or> param_idx = 1) \<and> j \<noteq> nat param_idx \<and> j < 3"
  then show "snd (update_hyperparameter H ft_tiles ft_rhs N n_tiles beta1_T beta2_T iter param_idx
                (poke j x y z opt))
          = poke j x y z (snd (update_hyperparameter H ft_tiles ft_rhs N n_tiles beta1_T beta2_T
                iter param_idx opt))"
    by (intro update_hyperparameter_poke [OF frame]) simp_all
next
  show "\<exists>ft_tiles ft_rhs beta1_T beta2_T opt.
          hyperparameters (snd (update_hyperparameter scalar_helpers ft_tiles ft_rhs 1 1
             beta1_T beta2_T 0 0
             (snd (update_hyperparameter scalar_helpers ft_tiles ft_rhs 1 1 beta1_T beta2_T 0 0
                opt)))) ! 0
          \<noteq> hyperparameters (snd (update_hyperparameter scalar_helpers ft_tiles ft_rhs 1 1
             beta1_T beta2_T 0 0 opt)) ! 0"
    by (rule update_not_idempotent)
qed

theorem adam_update_order_insensitive_example:
  "snd (update_hyperparameter scalar_helpers [1] [1] 1 1 [1 / 2] [0] 0 1
     (snd (update_hyperparameter scalar_helpers [1] [1] 1 1 [1 / 2] [0] 0 0 opt0)))
   = snd (update_hyperparameter scalar_helpers [1] [1] 1 1 [1 / 2] [0] 0 0
     (snd (update_hyperparameter scalar_helpers [1] [1] 1 1 [1 / 2] [0] 0 1 opt0)))
   \<and> snd (update_hyperparameter scalar_helpers [1] [1] 1 1 [1 / 2] [0] 0 0
        (poke 1 5 6 7 opt0))
     = poke 1 5 6 7 (snd (update_hyperparameter scalar_helpers [1] [1] 1 1 [1 / 2] [0] 0 0 opt0))"
proof -
  have frame: "\<forall>u hp j x g m v b1 b2 it. j < 3 \<longrightarrow>
      update_param scalar_helpers u (hp[j := x]) g m v b1 b2 it
      = update_param scalar_helpers u hp g m v b1 b2 it"
    by (simp add: update_param_spec_def)
  have side: "((0::int) = 0 \<or> (0::int) = 1) \<and> (1::nat) \<noteq> nat 0 \<and> (1::nat) < 3"
    by simp
  note inst = adam_update_order_insensitive_not_idempotent
      [OF frame, of "[1]" "[1]" 1 1 "[1 / 2]" "[0]" 0 opt0]
  from inst have a: "snd (update_hyperparameter scalar_helpers [1] [1] 1 1 [1 / 2] [0] 0 1
     (snd (update_hyperparameter scalar_helpers [1] [1] 1 1 [1 / 2] [0] 0 0 opt0)))
   = snd (update_hyperparameter scalar_helpers [1] [1] 1 1 [1 / 2] [0] 0 0
     (snd (update_hyperparameter scalar_helpers [1] [1] 1 1 [1 / 2] [0] 0 1 opt0)))"
    by (rule conjunct1)
  from inst have "\<forall>param_idx j x y z.
      (param_idx = 0 \<or> param_idx = 1) \<and> j \<noteq> nat param_idx \<and> j < 3 \<longrightarrow>
      snd (update_hyperparameter scalar_helpers [1] [1] 1 1 [1 / 2] [0] 0 param_idx
             (poke j x y z opt0))
      = poke j x y z (snd (update_hyperparameter scalar_helpers [1] [1] 1 1 [1 / 2] [0] 0
             param_idx opt0))"
    by (rule conjunct1 [OF conjunct2])
  with side have b: "snd (update_hyperparameter scalar_helpers [1] [1] 1 1 [1 / 2] [0] 0 0
        (poke 1 5 6 7 opt0))
     = poke 1 5 6 7 (snd (update_hyperparameter scalar_helpers [1] [1] 1 1 [1 / 2] [0] 0 0 opt0))"
    by blast
  from a b show ?thesis
    by (rule conjI)
qed

section \<open>Rejection of an invalid parameter index\<close>

text \<open>
  Claim C4. For every \<open>param_idx\<close> other than 0 and 1, \<open>update_hyperparameter\<close>
  throws \<^verbatim>\<open>std::invalid_argument\<close> and does nothing else: no task is
  scheduled (no diagonal tile is generated, no gradient computed), the moment
  vectors and the hyperparameter array are as they were. This holds whatever
  the scheduled helper functions compute.
\<close>

theorem update_hyperparameter_rejects_other_indices:
  assumes "param_idx \<noteq> 0" and "param_idx \<noteq> 1"
  shows "update_hyperparameter H ft_tiles ft_rhs N n_tiles beta1_T beta2_T iter param_idx opt
         = (Some (InvalidArgument ''Invalid param_idx''), opt)"
  using assms by (simp add: update_hyperparameter_def)

theorem update_hyperparameter_rejects_index_3:
  "update_hyperparameter scalar_helpers [1] [1] 1 1 [1 / 2] [0] 0 3 opt0
   = (Some (InvalidArgument ''Invalid param_idx''), opt0)"
  using update_hyperparameter_rejects_other_indices [of 3 scalar_helpers "[1]" "[1]" 1 1 "[1 / 2]" "[0]" 0 opt0]
  by simp

section \<open>Posterior covariance: what is written\<close>

lemma issued_posterior:
  "issued (posterior_covariance_tiled K N M n_tiles m_tiles s) =
     issued s @ concat (map (\<lambda>i. map (posterior_call n_tiles m_tiles i) [0..<n_tiles]) [0..<m_tiles])"
proof -
  have inner: "issued (for_up 0 n_tiles (\<lambda>m.
           dataflow3 Mkl_gemm_uncertainty_matrix
             (\<lambda>A B C. mkl_gemm_uncertainty_matrix K A B C N M)
             (Ft_CC_tiles, i * n_tiles + m) (Ft_tCC_tiles, m * m_tiles + i)
             (Ft_K_tiles, i * m_tiles + i) (Ft_K_tiles, i * m_tiles + i)) s1)
        = issued s1 @ map (posterior_call n_tiles m_tiles i) [0..<n_tiles]" for i and s1 :: "'a sched"
    by (subst issued_for_up [where pat = "\<lambda>m. [posterior_call n_tiles m_tiles i m]"])
       (simp_all add: posterior_call_def)
  have mid: "for_up i (i + 1) body s1 = body i s1" for i and body :: "nat \<Rightarrow> 'a sched \<Rightarrow> 'a sched" and s1
    by (simp add: for_up_fold)
  show ?thesis
    unfolding posterior_covariance_tiled_def mid
    by (subst issued_for_up [where pat = "\<lambda>i. map (posterior_call n_tiles m_tiles i) [0..<n_tiles]"])
       (simp_all add: inner)
qed

lemma concat_map_if_eq:
  "i < b \<Longrightarrow> concat (map (\<lambda>x. if x = i then r else []) [0..<b]) = r"
proof (induction b)
  case 0
  then show ?case by simp
next
  case (Suc b)
  show ?case
  proof (cases "i = b")
    case True
    have "concat (map (\<lambda>x. if x = b then r else []) xs) = []" if "b \<notin> set xs" for xs
      using that by (induction xs) auto
    then show ?thesis
      using True by simp
  next
    case False
    with Suc show ?thesis by simp
  qed
qed

lemma diag_index_inj: "i' * m + i' = i * m + i \<longleftrightarrow> i' = (i::nat)"
proof
  assume "i' * m + i' = i * m + i"
  then have "i' * Suc m = i * Suc m" by (simp add: ac_simps)
  then show "i' = i" by (simp only: mult_cancel2) simp
qed simp

lemma posterior_calls_into_slot:
  assumes "i < m_tiles"
  shows "filter (\<lambda>c. writes c = (Ft_K_tiles, i * m_tiles + i))
           (concat (map (\<lambda>i. map (posterior_call n_tiles m_tiles i) [0..<n_tiles]) [0..<m_tiles]))
         = map (posterior_call n_tiles m_tiles i) [0..<n_tiles]"
proof -
  have row: "filter (\<lambda>c. writes c = (Ft_K_tiles, i * m_tiles + i))
               (map (posterior_call n_tiles m_tiles i') [0..<n_tiles])
             = (if i' = i then map (posterior_call n_tiles m_tiles i) [0..<n_tiles] else [])" for i'
    by (simp add: filter_map comp_def posterior_call_def diag_index_inj)
  show ?thesis
    by (simp add: filter_concat comp_def row concat_map_if_eq [OF assms])
qed

lemma store_posterior:
  "(\<forall>a. a \<noteq> Ft_K_tiles \<longrightarrow>
       store (posterior_covariance_tiled K N M n_tiles m_tiles s) a = store s a)
   \<and> (\<forall>idx. (\<forall>i<m_tiles. idx \<noteq> i * m_tiles + i) \<longrightarrow>
         store (posterior_covariance_tiled K N M n_tiles m_tiles s) Ft_K_tiles ! idx
         = store s Ft_K_tiles ! idx)
   \<and> length (store (posterior_covariance_tiled K N M n_tiles m_tiles s) Ft_K_tiles)
       = length (store s Ft_K_tiles)"
proof -
  define P where "P s' \<longleftrightarrow>
      (\<forall>a. a \<noteq> Ft_K_tiles \<longrightarrow> store s' a = store s a)
    \<and> (\<forall>idx. (\<forall>i<m_tiles. idx \<noteq> i * m_tiles + i) \<longrightarrow>
          store s' Ft_K_tiles ! idx = store s Ft_K_tiles ! idx)
    \<and> length (store s' Ft_K_tiles) = length (store s Ft_K_tiles)" for s' :: "'a sched"
  have step: "P (dataflow3 k f r1 r2 r3 (Ft_K_tiles, i * m_tiles + i) s1)"
    if "P s1" "i < m_tiles" for k f r1 r2 r3 i s1
  proof -
    have "(xs[i * m_tiles + i := v]) ! idx = xs ! idx"
      if "\<forall>i<m_tiles. idx \<noteq> i * m_tiles + i" for xs :: "'a list" and v idx
      using that \<open>i < m_tiles\<close> by (intro nth_list_update_neq) auto
    with that show ?thesis
      by (auto simp add: P_def dataflow3_def)
  qed
  have "P (posterior_covariance_tiled K N M n_tiles m_tiles s)"
    unfolding posterior_covariance_tiled_def
  proof (rule for_up_invariant [where P = P])
    show "P s"
      by (simp add: P_def)
  next
    fix i s1
    assume i: "i < m_tiles" and s1: "P s1"
    show "P (for_up i (i + 1) (\<lambda>j. for_up 0 n_tiles (\<lambda>m.
           dataflow3 Mkl_gemm_uncertainty_matrix
             (\<lambda>A B C. mkl_gemm_uncertainty_matrix K A B C N M)
             (Ft_CC_tiles, i * n_tiles + m) (Ft_tCC_tiles, m * m_tiles + i)
             (Ft_K_tiles, i * m_tiles + j) (Ft_K_tiles, i * m_tiles + j))) s1)"
    proof (rule for_up_invariant [where P = P, OF s1])
      fix j s2
      assume j: "i \<le> j" "j < i + 1" and s2: "P s2"
      then have "j = i" by simp
      show "P (for_up 0 n_tiles (\<lambda>m.
           dataflow3 Mkl_gemm_uncertainty_matrix
             (\<lambda>A B C. mkl_gemm_uncertainty_matrix K A B C N M)
             (Ft_CC_tiles, i * n_tiles + m) (Ft_tCC_tiles, m * m_tiles + i)
             (Ft_K_tiles, i * m_tiles + j) (Ft_K_tiles, i * m_tiles + j)) s2)"
        unfolding \<open>j = i\<close>
        by (rule for_up_invariant [where P = P, OF s2]) (rule step [OF _ i])
    qed
  qed
  then show ?thesis
    by (simp add: P_def)
qed

text \<open>
  Claim C10. \<open>posterior_covariance_tiled\<close> issues, for each \<open>i < m_tiles\<close> in
  turn, \<open>n_tiles\<close> accumulation kernels that read slot \<open>i * n_tiles + m\<close> of the
  first input, slot \<open>m * m_tiles + i\<close> of the second and the diagonal slot
  \<open>i * m_tiles + i\<close> of \<^verbatim>\<open>ft_K_tiles\<close>, and write that diagonal slot; exactly
  \<open>n_tiles\<close> of the invocations issued write a given diagonal slot. The two
  input tile matrices are unchanged, and so is every slot of \<^verbatim>\<open>ft_K_tiles\<close>
  that is not one of the \<open>m_tiles\<close> diagonal slots.
\<close>

theorem posterior_covariance_writes_diagonal_only:
  "issued (posterior_covariance_tiled K N M n_tiles m_tiles s) =
     issued s @ concat (map (\<lambda>i. map (posterior_call n_tiles m_tiles i) [0..<n_tiles]) [0..<m_tiles])
   \<and> (\<forall>i<m_tiles.
         length (filter (\<lambda>c. writes c = (Ft_K_tiles, i * m_tiles + i))
           (drop (length (issued s))
              (issued (posterior_covariance_tiled K N M n_tiles m_tiles s)))) = n_tiles)
   \<and> (\<forall>a. a \<noteq> Ft_K_tiles \<longrightarrow>
         store (posterior_covariance_tiled K N M n_tiles m_tiles s) a = store s a)
   \<and> (\<forall>idx. (\<forall>i<m_tiles. idx \<noteq> i * m_tiles + i) \<longrightarrow>
         store (posterior_covariance_tiled K N M n_tiles m_tiles s) Ft_K_tiles ! idx
         = store s Ft_K_tiles ! idx)
   \<and> length (store (posterior_covariance_tiled K N M n_tiles m_tiles s) Ft_K_tiles)
       = length (store s Ft_K_tiles)"
proof -
  have "length (filter (\<lambda>c. writes c = (Ft_K_tiles, i * m_tiles + i))
           (drop (length (issued s))
              (issued (posterior_covariance_tiled K N M n_tiles m_tiles s)))) = n_tiles"
    if "i < m_tiles" for i
    by (simp add: issued_posterior posterior_calls_into_slot [OF that])
  then show ?thesis
    using issued_posterior [of K N M n_tiles m_tiles s] store_posterior [of K N M n_tiles m_tiles s]
    by blast
qed

theorem posterior_covariance_two_by_two:
  "issued (posterior_covariance_tiled symbolic_mkl 1 1 2 2 (initial 4)) =
     [Call Mkl_gemm_uncertainty_matrix
        [(Ft_CC_tiles, 0), (Ft_tCC_tiles, 0), (Ft_K_tiles, 0)] (Ft_K_tiles, 0),
      Call Mkl_gemm_uncertainty_matrix
        [(Ft_CC_tiles, 1), (Ft_tCC_tiles, 2), (Ft_K_tiles, 0)] (Ft_K_tiles, 0),
      Call Mkl_gemm_uncertainty_matrix
        [(Ft_CC_tiles, 2), (Ft_tCC_tiles, 1), (Ft_K_tiles, 3)] (Ft_K_tiles, 3),
      Call Mkl_gemm_uncertainty_matrix
        [(Ft_CC_tiles, 3), (Ft_tCC_tiles, 3), (Ft_K_tiles, 3)] (Ft_K_tiles, 3)]
   \<and> store (posterior_covariance_tiled symbolic_mkl 1 1 2 2 (initial 4)) Ft_CC_tiles
       = map (Input Ft_CC_tiles) [0..<4]
   \<and> store (posterior_covariance_tiled symbolic_mkl 1 1 2 2 (initial 4)) Ft_tCC_tiles
       = map (Input Ft_tCC_tiles) [0..<4]
   \<and> store (posterior_covariance_tiled symbolic_mkl 1 1 2 2 (initial 4)) Ft_K_tiles ! 1
       = Input Ft_K_tiles 1
   \<and> store (posterior_covariance_tiled symbolic_mkl 1 1 2 2 (initial 4)) Ft_K_tiles ! 2
       = Input Ft_K_tiles 2"
proof -
  note inst = posterior_covariance_writes_diagonal_only [of symbolic_mkl 1 1 2 2 "initial 4"]
  have calls: "issued (initial 4)
      @ concat (map (\<lambda>i. map (posterior_call 2 2 i) [0..<2]) [0..<2]) =
     [Call Mkl_gemm_uncertainty_matrix
        [(Ft_CC_tiles, 0), (Ft_tCC_tiles, 0), (Ft_K_tiles, 0)] (Ft_K_tiles, 0),
      Call Mkl_gemm_uncertainty_matrix
        [(Ft_CC_tiles, 1), (Ft_tCC_tiles, 2), (Ft_K_tiles, 0)] (Ft_K_tiles, 0),
      Call Mkl_gemm_uncertainty_matrix
        [(Ft_CC_tiles, 2), (Ft_tCC_tiles, 1), (Ft_K_tiles, 3)] (Ft_K_tiles, 3),
      Call Mkl_gemm_uncertainty_matrix
        [(Ft_CC_tiles, 3), (Ft_tCC_tiles, 3), (Ft_K_tiles, 3)] (Ft_K_tiles, 3)]"
    by code_simp
  have off: "\<forall>i<2. (1::nat) \<noteq> i * 2 + i" "\<forall>i<2. (2::nat) \<noteq> i * 2 + i"
    by (auto simp add: less_2_cases_iff)
  have "store (initial 4) Ft_K_tiles ! 1 = Input Ft_K_tiles 1"
    "store (initial 4) Ft_K_tiles ! 2 = Input Ft_K_tiles 2"
    "store (initial 4) Ft_CC_tiles = map (Input Ft_CC_tiles) [0..<4]"
    "store (initial 4) Ft_tCC_tiles = map (Input Ft_tCC_tiles) [0..<4]"
    by (simp_all add: initial_def)
  with inst calls off show ?thesis
    by auto
qed

section \<open>Prediction accumulates into its result tiles\<close>

lemma issued_prediction:
  "issued (prediction_tiled K N_row N_col n_tiles m_tiles s) =
     issued s @ concat (map (\<lambda>k. map (prediction_call n_tiles k) [0..<n_tiles]) [0..<m_tiles])"
proof -
  have inner: "issued (for_up 0 n_tiles (\<lambda>m.
         dataflow3 Mkl_gemv_p (\<lambda>A a b. mkl_gemv_p K A a b N_row N_col)
           (Ft_tiles, k * n_tiles + m) (Ft_vector, m) (Ft_rhs, k) (Ft_rhs, k)) s1)
        = issued s1 @ map (prediction_call n_tiles k) [0..<n_tiles]" for k and s1 :: "'a sched"
    by (subst issued_for_up [where pat = "\<lambda>m. [prediction_call n_tiles k m]"])
       (simp_all add: prediction_call_def)
  show ?thesis
    unfolding prediction_tiled_def
    by (subst issued_for_up [where pat = "\<lambda>k. map (prediction_call n_tiles k) [0..<n_tiles]"])
       (simp_all add: inner)
qed

lemma length_concat_rows:
  "length (concat (map (\<lambda>k. map (f k) [0..<n]) [0..<m])) = n * m"
  by (induction m) simp_all

lemma prediction_row:
  assumes "k < length (store s1 Ft_rhs)"
  shows "store (fold (\<lambda>m. dataflow3 Mkl_gemv_p f (Ft_tiles, g m) (Ft_vector, m)
                    (Ft_rhs, k) (Ft_rhs, k)) ms s1)
         = (store s1)(Ft_rhs := (store s1 Ft_rhs)
              [k := fold (\<lambda>m b. f (store s1 Ft_tiles ! g m) (store s1 Ft_vector ! m) b) ms
                      (store s1 Ft_rhs ! k)])"
  using assms
proof (induction ms arbitrary: s1)
  case Nil
  then show ?case by simp
next
  case (Cons m ms)
  let ?s2 = "dataflow3 Mkl_gemv_p f (Ft_tiles, g m) (Ft_vector, m) (Ft_rhs, k) (Ft_rhs, k) s1"
  have s2: "store ?s2 = (store s1)(Ft_rhs := (store s1 Ft_rhs)
       [k := f (store s1 Ft_tiles ! g m) (store s1 Ft_vector ! m) (store s1 Ft_rhs ! k)])"
    by (simp add: dataflow3_def rd_def)
  have "k < length (store ?s2 Ft_rhs)"
    using Cons.prems by (simp add: s2)
  from Cons.IH [OF this] show ?case
    using Cons.prems by (simp add: s2 fun_eq_iff)
qed

lemma prediction_rows:
  assumes "distinct ks" and "\<forall>k\<in>set ks. k < length (store s1 Ft_rhs)"
  shows "store (fold (\<lambda>k. fold (\<lambda>m. dataflow3 Mkl_gemv_p f (Ft_tiles, g k m) (Ft_vector, m)
                    (Ft_rhs, k) (Ft_rhs, k)) ms) ks s1) Ft_tiles = store s1 Ft_tiles
       \<and> store (fold (\<lambda>k. fold (\<lambda>m. dataflow3 Mkl_gemv_p f (Ft_tiles, g k m) (Ft_vector, m)
                    (Ft_rhs, k) (Ft_rhs, k)) ms) ks s1) Ft_vector = store s1 Ft_vector
       \<and> length (store (fold (\<lambda>k. fold (\<lambda>m. dataflow3 Mkl_gemv_p f (Ft_tiles, g k m)
                    (Ft_vector, m) (Ft_rhs, k) (Ft_rhs, k)) ms) ks s1) Ft_rhs)
           = length (store s1 Ft_rhs)
       \<and> (\<forall>k. store (fold (\<lambda>k. fold (\<lambda>m. dataflow3 Mkl_gemv_p f (Ft_tiles, g k m) (Ft_vector, m)
                    (Ft_rhs, k) (Ft_rhs, k)) ms) ks s1) Ft_rhs ! k
             = (if k \<in> set ks
                then fold (\<lambda>m b. f (store s1 Ft_tiles ! g k m) (store s1 Ft_vector ! m) b) ms
                       (store s1 Ft_rhs ! k)
                else store s1 Ft_rhs ! k))"
  using assms
proof (induction ks arbitrary: s1)
  case Nil
  then show ?case by simp
next
  case (Cons k ks)
  let ?s2 = "fold (\<lambda>m. dataflow3 Mkl_gemv_p f (Ft_tiles, g k m) (Ft_vector, m)
                    (Ft_rhs, k) (Ft_rhs, k)) ms s1"
  have k: "k < length (store s1 Ft_rhs)"
    using Cons.prems by simp
  note s2 = prediction_row [OF k, of f "g k" ms]
  have "distinct ks" "\<forall>k\<in>set ks. k < length (store ?s2 Ft_rhs)"
    using Cons.prems by (simp_all add: s2)
  from Cons.IH [OF this] show ?case
    using Cons.prems k by (auto simp add: s2 nth_list_update)
qed

lemma gemv_nth:
  "i < N \<Longrightarrow> gemv A a b N M alpha Blas_no_trans ! i
     = b ! i + alpha * (\<Sum>j\<leftarrow>[0..<M]. A ! (i * M + j) * a ! j)"
  by (simp add: gemv_def cblas_dgemv_def nth_append)

lemma fold_gemv_nth:
  assumes "i < N"
  shows "fold (\<lambda>m b. gemv (T m) (V m) b N M alpha Blas_no_trans) ms b ! i
         = b ! i + alpha * (\<Sum>m\<leftarrow>ms. \<Sum>j\<leftarrow>[0..<M]. T m ! (i * M + j) * V m ! j)"
proof (induction ms arbitrary: b)
  case Nil
  then show ?case by simp
next
  case (Cons m ms)
  show ?case
    by (simp add: Cons.IH gemv_nth [OF assms] algebra_simps)
qed

text \<open>
  Claim C9. \<open>prediction_tiled\<close> issues \<open>n_tiles * m_tiles\<close> invocations, and
  result tile \<open>k\<close> ends as the prediction kernel folded over \<open>m\<close>, starting
  from the contents the caller supplied: each invocation receives the current
  result tile as its in-out argument. The \<open>gemv\<close> kernel of the adapter has
  \<open>beta = 1\<close>: it returns \<open>b + alpha * A * a\<close>. With that kernel, entry \<open>i\<close> of
  result tile \<open>k\<close> is its initial value plus \<open>alpha\<close> times the sum over all
  \<open>m\<close> of row \<open>i\<close> of tile \<open>(k,m)\<close> applied to input tile \<open>m\<close>; so it equals
  that sum exactly when the initial value is zero.
\<close>

theorem prediction_accumulates_into_result:
  assumes "k < m_tiles" and "m_tiles \<le> length (store s Ft_rhs)"
  shows "issued (prediction_tiled K N_row N_col n_tiles m_tiles s) =
           issued s @ concat (map (\<lambda>k. map (prediction_call n_tiles k) [0..<n_tiles]) [0..<m_tiles])
       \<and> length (issued (prediction_tiled K N_row N_col n_tiles m_tiles s))
           = length (issued s) + n_tiles * m_tiles
       \<and> store (prediction_tiled K N_row N_col n_tiles m_tiles s) Ft_rhs ! k
           = fold (\<lambda>m b. mkl_gemv_p K (store s Ft_tiles ! (k * n_tiles + m))
                          (store s Ft_vector ! m) b N_row N_col)
               [0..<n_tiles] (store s Ft_rhs ! k)
       \<and> (\<forall>alpha A a b i. i < N_row \<longrightarrow>
             gemv A a b N_row N_col alpha Blas_no_trans ! i
             = b ! i + alpha * (\<Sum>j\<leftarrow>[0..<N_col]. A ! (i * N_col + j) * a ! j))
       \<and> (\<forall>alpha i.
             mkl_gemv_p K = (\<lambda>A a b N M. gemv A a b N M alpha Blas_no_trans) \<and> i < N_row \<longrightarrow>
             store (prediction_tiled K N_row N_col n_tiles m_tiles s) Ft_rhs ! k ! i
             = store s Ft_rhs ! k ! i
               + alpha * (\<Sum>m\<leftarrow>[0..<n_tiles]. \<Sum>j\<leftarrow>[0..<N_col].
                   store s Ft_tiles ! (k * n_tiles + m) ! (i * N_col + j)
                   * store s Ft_vector ! m ! j)
             \<and> (store (prediction_tiled K N_row N_col n_tiles m_tiles s) Ft_rhs ! k ! i
                  = alpha * (\<Sum>m\<leftarrow>[0..<n_tiles]. \<Sum>j\<leftarrow>[0..<N_col].
                      store s Ft_tiles ! (k * n_tiles + m) ! (i * N_col + j)
                      * store s Ft_vector ! m ! j)
                \<longleftrightarrow> store s Ft_rhs ! k ! i = 0))"
proof -
  have len: "\<forall>k\<in>set [0..<m_tiles]. k < length (store s Ft_rhs)"
    using assms(2) by simp
  have row: "store (prediction_tiled K N_row N_col n_tiles m_tiles s) Ft_rhs ! k
           = fold (\<lambda>m b. mkl_gemv_p K (store s Ft_tiles ! (k * n_tiles + m))
                          (store s Ft_vector ! m) b N_row N_col)
               [0..<n_tiles] (store s Ft_rhs ! k)"
    using prediction_rows [OF distinct_upt len,
        of "\<lambda>A a b. mkl_gemv_p K A a b N_row N_col" "\<lambda>k m. k * n_tiles + m" "[0..<n_tiles]"]
      assms(1)
    by (simp add: prediction_tiled_def for_up_eq_fold)
  have entry: "store (prediction_tiled K N_row N_col n_tiles m_tiles s) Ft_rhs ! k ! i
             = store s Ft_rhs ! k ! i
               + alpha * (\<Sum>m\<leftarrow>[0..<n_tiles]. \<Sum>j\<leftarrow>[0..<N_col].
                   store s Ft_tiles ! (k * n_tiles + m) ! (i * N_col + j)
                   * store s Ft_vector ! m ! j)"
    if "mkl_gemv_p K = (\<lambda>A a b N M. gemv A a b N M alpha Blas_no_trans)" "i < N_row"
    for alpha i
    unfolding row that(1)
    by (rule fold_gemv_nth [OF that(2)])
  show ?thesis
    using row entry
    by (simp add: issued_prediction length_concat_rows gemv_nth)
qed

theorem prediction_accumulates_example:
  "store (prediction_tiled gemv_mkl 1 1 2 1 prediction_example) Ft_rhs ! 0 ! 0 = 32
   \<and> store prediction_example Ft_rhs ! 0 ! 0 = 1
   \<and> length (issued (prediction_tiled gemv_mkl 1 1 2 1 prediction_example)) = 2"
proof -
  have k: "(0::nat) < 1" and len: "1 \<le> length (store prediction_example Ft_rhs)"
    by (simp_all add: prediction_example_def)
  note inst = prediction_accumulates_into_result [OF k len, of gemv_mkl 1 1 2]
  have kernel: "mkl_gemv_p gemv_mkl = (\<lambda>A a b N M. gemv A a b N M 1 Blas_no_trans)"
    by (simp add: gemv_mkl_def)
  from inst have "\<forall>alpha i.
      mkl_gemv_p gemv_mkl = (\<lambda>A a b N M. gemv A a b N M alpha Blas_no_trans) \<and> i < 1 \<longrightarrow>
      store (prediction_tiled gemv_mkl 1 1 2 1 prediction_example) Ft_rhs ! 0 ! i
      = store prediction_example Ft_rhs ! 0 ! i
        + alpha * (\<Sum>m\<leftarrow>[0..<2]. \<Sum>j\<leftarrow>[0..<1].
            store prediction_example Ft_tiles ! (0 * 2 + m) ! (i * 1 + j)
            * store prediction_example Ft_vector ! m ! j)"
    by blast
  with kernel have "store (prediction_tiled gemv_mkl 1 1 2 1 prediction_example) Ft_rhs ! 0 ! 0
      = store prediction_example Ft_rhs ! 0 ! 0
        + 1 * (\<Sum>m\<leftarrow>[0..<2]. \<Sum>j\<leftarrow>[0..<1].
            store prediction_example Ft_tiles ! (0 * 2 + m) ! (0 * 1 + j)
            * store prediction_example Ft_vector ! m ! j)"
    by blast
  moreover have "(\<Sum>m\<leftarrow>[0..<2]. \<Sum>j\<leftarrow>[0..<1].
            store prediction_example Ft_tiles ! (0 * 2 + m) ! (0 * 1 + j)
            * store prediction_example Ft_vector ! m ! j) = 31"
    by (simp add: prediction_example_def upt_conv_Cons numeral_2_eq_2)
  moreover from inst have "length (issued (prediction_tiled gemv_mkl 1 1 2 1 prediction_example))
      = length (issued prediction_example) + 2 * 1"
    by blast
  ultimately show ?thesis
    by (simp add: prediction_example_def)
qed

section \<open>The factorization kernel and tiles that are not positive definite\<close>

lemma xpotrf_lower_indefinite: "xpotrf_lower [1, 2, 2, 1] 2 = ([1, 2, 2, 1], 2)"
  by (simp add: xpotrf_lower_def cholesky_entry_def upt_conv_Cons numeral_2_eq_2 Let_def)

lemma xpotrf_lower_definite: "xpotrf_lower [1, 2, 2, 5] 2 = ([1, 2, 2, 1], 0)"
  by (simp add: xpotrf_lower_def cholesky_entry_def upt_conv_Cons numeral_2_eq_2 Let_def)

text \<open>
  Claim C2, as stated: applied to a tile that is not positive definite, the
  kernel fails with \<open>NotPositiveDefinite\<close>. On the tile \<open>[[1,2],[2,1]]\<close> the
  dense factorization meets a non-positive pivot in the second row and reports
  status 2; \<open>potrf\<close> returns normally all the same.
\<close>

theorem potrf_returns_indefinite_tile:
  "snd (xpotrf_lower [1, 2, 2, 1] 2) = 2
   \<and> potrf ok_env xpotrf_lower [1, 2, 2, 1] 2 = (None, [1, 2, 2, 1])"
  by (simp add: xpotrf_lower_indefinite potrf_def ok_env_def)

text \<open>
  Claim C2, amended. \<open>potrf\<close> never fails with \<open>NotPositiveDefinite\<close>: it
  does not read the status word of the solver, so its outcome is the same for
  any two solvers that leave the same buffer, whatever status they report. It
  either returns, or throws the error of a failed runtime call, or the runtime
  error of the failed host allocation; when every runtime call succeeds it
  returns the buffer as the solver left it, for tiles that are positive
  definite and for tiles that are not.
\<close>

theorem potrf_ignores_solver_status:
  "fst (potrf env cusolverDnXpotrf d_A N) \<noteq> Some NotPositiveDefinite
   \<and> (\<forall>other. fst (other d_A N) = fst (cusolverDnXpotrf d_A N) \<longrightarrow>
         potrf env other d_A N = potrf env cusolverDnXpotrf d_A N)
   \<and> (fst (potrf env cusolverDnXpotrf d_A N) = None
       \<or> fst (potrf env cusolverDnXpotrf d_A N) = Some CudaError
       \<or> fst (potrf env cusolverDnXpotrf d_A N) = Some (RuntimeError ''Error: h_work not allocated.''))
   \<and> (cudaMalloc_d_info env \<and> cudaMalloc_d_work env
        \<and> (0 < workspaceInBytesOnHost env \<longrightarrow> malloc_h_work env)
        \<and> cudaStreamSynchronize_ok env \<and> cudaFree_d_work env \<and> cudaFree_d_info env
       \<longrightarrow> potrf env cusolverDnXpotrf d_A N = (None, fst (cusolverDnXpotrf d_A N)))"
  by (auto simp add: potrf_def split: prod.splits)

theorem potrf_returns_definite_tile:
  "potrf ok_env xpotrf_lower [1, 2, 2, 5] 2 = (None, [1, 2, 2, 1])"
proof -
  have "cudaMalloc_d_info ok_env \<and> cudaMalloc_d_work ok_env
        \<and> (0 < workspaceInBytesOnHost ok_env \<longrightarrow> malloc_h_work ok_env)
        \<and> cudaStreamSynchronize_ok ok_env \<and> cudaFree_d_work ok_env \<and> cudaFree_d_info ok_env"
    by (simp add: ok_env_def)
  with potrf_ignores_solver_status [of ok_env xpotrf_lower "[1, 2, 2, 5]" 2]
  have "potrf ok_env xpotrf_lower [1, 2, 2, 5] 2 = (None, fst (xpotrf_lower [1, 2, 2, 5] 2))"
    by blast
  then show ?thesis
    by (simp add: xpotrf_lower_definite)
qed

section \<open>Tiled forward and backward substitution\<close>

lemma issued_forward:
  "issued (forward_solve_tiled K N n s) = issued s @ forward_calls n"
proof -
  have inner: "issued (for_up (Suc k) n (\<lambda>m.
         dataflow3 Mkl_gemv_l (\<lambda>A a b. mkl_gemv_l K A a b N)
           (tile n m k) (Ft_rhs, k) (Ft_rhs, m) (Ft_rhs, m)) s1)
      = issued s1 @ map (\<lambda>m. Call Mkl_gemv_l [tile n m k, (Ft_rhs, k), (Ft_rhs, m)] (Ft_rhs, m))
          [Suc k..<n]" for k and s1 :: "'a sched"
    by (subst issued_for_up
          [where pat = "\<lambda>m. [Call Mkl_gemv_l [tile n m k, (Ft_rhs, k), (Ft_rhs, m)] (Ft_rhs, m)]"])
       simp_all
  show ?thesis
    unfolding forward_solve_tiled_def forward_calls_def
    by (subst issued_for_up [where pat = "\<lambda>k.
          Call Mkl_trsv_l [tile n k k, (Ft_rhs, k)] (Ft_rhs, k)
          # map (\<lambda>m. Call Mkl_gemv_l [tile n m k, (Ft_rhs, k), (Ft_rhs, m)] (Ft_rhs, m))
              [k + 1..<n]"])
       (simp_all add: inner)
qed

lemma issued_backward:
  "issued (backward_solve_tiled K N n s) = issued s @ backward_calls n"
proof -
  have inner: "issued (fold (\<lambda>m.
         dataflow3 Mkl_gemv_u (\<lambda>A a b. mkl_gemv_u K A a b N)
           (tile n k m) (Ft_rhs, k) (Ft_rhs, m) (Ft_rhs, m)) ms s1)
      = issued s1 @ map (\<lambda>m. Call Mkl_gemv_u [tile n k m, (Ft_rhs, k), (Ft_rhs, m)] (Ft_rhs, m)) ms"
    for k ms and s1 :: "'a sched"
    by (subst issued_fold
          [where pat = "\<lambda>m. [Call Mkl_gemv_u [tile n k m, (Ft_rhs, k), (Ft_rhs, m)] (Ft_rhs, m)]"])
       simp_all
  show ?thesis
    unfolding backward_solve_tiled_def backward_calls_def for_down_eq_fold
    by (subst issued_fold [where pat = "\<lambda>k.
          Call Mkl_trsv_u [tile n k k, (Ft_rhs, k)] (Ft_rhs, k)
          # map (\<lambda>m. Call Mkl_gemv_u [tile n k m, (Ft_rhs, k), (Ft_rhs, m)] (Ft_rhs, m))
              (rev [0..<k])"])
       (simp_all add: inner)
qed


lemma update_others:
  assumes "distinct ms" and "k \<notin> set ms" and "\<forall>m\<in>set ms. m < length (store s1 Ft_rhs)"
  shows "store (fold (\<lambda>m. dataflow3 kg fg (Ft_tiles, g m) (Ft_rhs, k) (Ft_rhs, m) (Ft_rhs, m))
                  ms s1) Ft_tiles = store s1 Ft_tiles
       \<and> length (store (fold (\<lambda>m. dataflow3 kg fg (Ft_tiles, g m) (Ft_rhs, k) (Ft_rhs, m)
                  (Ft_rhs, m)) ms s1) Ft_rhs) = length (store s1 Ft_rhs)
       \<and> (\<forall>i. store (fold (\<lambda>m. dataflow3 kg fg (Ft_tiles, g m) (Ft_rhs, k) (Ft_rhs, m)
                  (Ft_rhs, m)) ms s1) Ft_rhs ! i
             = (if i \<in> set ms
                then fg (store s1 Ft_tiles ! g i) (store s1 Ft_rhs ! k) (store s1 Ft_rhs ! i)
                else store s1 Ft_rhs ! i))"
  using assms
proof (induction ms arbitrary: s1)
  case Nil
  then show ?case by simp
next
  case (Cons m ms)
  let ?s2 = "dataflow3 kg fg (Ft_tiles, g m) (Ft_rhs, k) (Ft_rhs, m) (Ft_rhs, m) s1"
  have s2: "store ?s2 = (store s1)(Ft_rhs := (store s1 Ft_rhs)
       [m := fg (store s1 Ft_tiles ! g m) (store s1 Ft_rhs ! k) (store s1 Ft_rhs ! m)])"
    by (simp add: dataflow3_def rd_def)
  have "distinct ms" "k \<notin> set ms" "\<forall>m\<in>set ms. m < length (store ?s2 Ft_rhs)"
    using Cons.prems by (simp_all add: s2)
  from Cons.IH [OF this] show ?case
    using Cons.prems by (auto simp add: s2 nth_list_update)
qed

lemma solve_stage:
  assumes "k < length (store s1 Ft_rhs)" and "distinct ms" and "k \<notin> set ms"
    and "\<forall>m\<in>set ms. m < length (store s1 Ft_rhs)"
  shows "store (fold (\<lambda>m. dataflow3 kg fg (Ft_tiles, g m) (Ft_rhs, k) (Ft_rhs, m) (Ft_rhs, m))
                  ms (dataflow2 kt ft (Ft_tiles, d) (Ft_rhs, k) (Ft_rhs, k) s1)) Ft_tiles
         = store s1 Ft_tiles
       \<and> length (store (fold (\<lambda>m. dataflow3 kg fg (Ft_tiles, g m) (Ft_rhs, k) (Ft_rhs, m)
                  (Ft_rhs, m)) ms (dataflow2 kt ft (Ft_tiles, d) (Ft_rhs, k) (Ft_rhs, k) s1))
                  Ft_rhs) = length (store s1 Ft_rhs)
       \<and> (\<forall>i. store (fold (\<lambda>m. dataflow3 kg fg (Ft_tiles, g m) (Ft_rhs, k) (Ft_rhs, m)
                  (Ft_rhs, m)) ms (dataflow2 kt ft (Ft_tiles, d) (Ft_rhs, k) (Ft_rhs, k) s1))
                  Ft_rhs ! i
             = (if i = k then ft (store s1 Ft_tiles ! d) (store s1 Ft_rhs ! k)
                else if i \<in> set ms
                then fg (store s1 Ft_tiles ! g i)
                       (ft (store s1 Ft_tiles ! d) (store s1 Ft_rhs ! k)) (store s1 Ft_rhs ! i)
                else store s1 Ft_rhs ! i))"
proof -
  let ?s2 = "dataflow2 kt ft (Ft_tiles, d) (Ft_rhs, k) (Ft_rhs, k) s1"
  have s2: "store ?s2 = (store s1)(Ft_rhs := (store s1 Ft_rhs)
       [k := ft (store s1 Ft_tiles ! d) (store s1 Ft_rhs ! k)])"
    by (simp add: dataflow2_def rd_def)
  have "\<forall>m\<in>set ms. m < length (store ?s2 Ft_rhs)"
    using assms(4) by (simp add: s2)
  from update_others [OF assms(2,3) this, of kg fg g] show ?thesis
    using assms(1,3) by (auto simp add: s2 nth_list_update)
qed


lemma forward_substitution:
  fixes K :: "'t mkl" and vec :: "'t \<Rightarrow> 'v::ab_group_add" and lower full :: "'t \<Rightarrow> 'v \<Rightarrow> 'v"
  assumes solve: "\<forall>k<n. \<forall>b. lower (rd s (tile n k k)) (vec (mkl_trsv_l K (rd s (tile n k k)) b N))
                            = vec b"
    and upd: "\<forall>m<n. \<forall>k<m. \<forall>x b. vec (mkl_gemv_l K (rd s (tile n m k)) x b N)
                            = vec b - full (rd s (tile n m k)) (vec x)"
    and len: "n \<le> length (store s Ft_rhs)"
  shows "store (forward_solve_tiled K N n s) Ft_tiles = store s Ft_tiles
       \<and> length (store (forward_solve_tiled K N n s) Ft_rhs) = length (store s Ft_rhs)
       \<and> (\<forall>i<n. lower (rd s (tile n i i)) (vec (rd (forward_solve_tiled K N n s) (Ft_rhs, i)))
                 + (\<Sum>j<i. full (rd s (tile n i j)) (vec (rd (forward_solve_tiled K N n s) (Ft_rhs, j))))
                 = vec (rd s (Ft_rhs, i)))"
proof -
  define stage where "stage = (\<lambda>k s0.
       fold (\<lambda>m.
         dataflow3 Mkl_gemv_l (\<lambda>A a b. mkl_gemv_l K A a b N)
           (Ft_tiles, m * n + k) (Ft_rhs, k) (Ft_rhs, m) (Ft_rhs, m)) [Suc k..<n]
         (dataflow2 Mkl_trsv_l (\<lambda>L a. mkl_trsv_l K L a N)
           (Ft_tiles, k * n + k) (Ft_rhs, k) (Ft_rhs, k) s0))"
  define L where "L i j = store s Ft_tiles ! (i * n + j)" for i j
  define b where "b i = store s Ft_rhs ! i" for i
  have run: "forward_solve_tiled K N n s = fold stage [0..<n] s"
    by (simp add: forward_solve_tiled_def for_up_eq_fold stage_def tile_def)
  have inv: "store (fold stage [0..<k] s) Ft_tiles = store s Ft_tiles
       \<and> length (store (fold stage [0..<k] s) Ft_rhs) = length (store s Ft_rhs)
       \<and> (\<forall>i<k. lower (L i i) (vec (store (fold stage [0..<k] s) Ft_rhs ! i))
                 + (\<Sum>j<i. full (L i j) (vec (store (fold stage [0..<k] s) Ft_rhs ! j))) = vec (b i))
       \<and> (\<forall>i. k \<le> i \<and> i < n \<longrightarrow>
             vec (store (fold stage [0..<k] s) Ft_rhs ! i)
             = vec (b i) - (\<Sum>j<k. full (L i j) (vec (store (fold stage [0..<k] s) Ft_rhs ! j))))"
    if "k \<le> n" for k
    using that
  proof (induction k)
    case 0
    then show ?case by (simp add: b_def)
  next
    case (Suc k)
    let ?s1 = "fold stage [0..<k] s"
    let ?r1 = "store ?s1 Ft_rhs"
    let ?z = "mkl_trsv_l K (L k k) (?r1 ! k) N"
    from Suc have k: "k < n" and IH:
      "store ?s1 Ft_tiles = store s Ft_tiles"
      "length ?r1 = length (store s Ft_rhs)"
      "\<forall>i<k. lower (L i i) (vec (?r1 ! i)) + (\<Sum>j<i. full (L i j) (vec (?r1 ! j))) = vec (b i)"
      "\<forall>i. k \<le> i \<and> i < n \<longrightarrow> vec (?r1 ! i) = vec (b i) - (\<Sum>j<k. full (L i j) (vec (?r1 ! j)))"
      by simp_all
    have pre: "k < length ?r1" "distinct [Suc k..<n]" "k \<notin> set [Suc k..<n]"
      "\<forall>m\<in>set [Suc k..<n]. m < length ?r1"
      using k len IH(2) by simp_all
    note st = solve_stage [OF pre, of Mkl_gemv_l "\<lambda>A a b. mkl_gemv_l K A a b N" "\<lambda>m. m * n + k"
        Mkl_trsv_l "\<lambda>L a. mkl_trsv_l K L a N" "k * n + k"]
    have next_state: "fold stage [0..<Suc k] s = stage k ?s1"
      by simp
    have tiles: "store (stage k ?s1) Ft_tiles = store s Ft_tiles"
      and length: "length (store (stage k ?s1) Ft_rhs) = length (store s Ft_rhs)"
      using st IH(1,2) by (simp_all add: stage_def)
    have entry: "store (stage k ?s1) Ft_rhs ! i
        = (if i = k then ?z
           else if Suc k \<le> i \<and> i < n then mkl_gemv_l K (L i k) ?z (?r1 ! i) N else ?r1 ! i)"
      for i
      using st IH(1) by (simp add: stage_def L_def)
    have updated: "vec (store (stage k ?s1) Ft_rhs ! i) = vec (?r1 ! i) - full (L i k) (vec ?z)"
      if "Suc k \<le> i" "i < n" for i
      using that upd by (simp add: entry L_def rd_def tile_def)
    have z: "lower (L k k) (vec (mkl_trsv_l K (L k k) v N)) = vec v" for v
      using solve k by (simp add: L_def rd_def tile_def)
    have below: "(\<Sum>j<k. full (L i j) (vec (store (stage k ?s1) Ft_rhs ! j)))
        = (\<Sum>j<k. full (L i j) (vec (?r1 ! j)))" for i
      by (rule sum.cong) (simp_all add: entry)
    have solved: "lower (L i i) (vec (store (stage k ?s1) Ft_rhs ! i))
          + (\<Sum>j<i. full (L i j) (vec (store (stage k ?s1) Ft_rhs ! j))) = vec (b i)"
      if "i < Suc k" for i
    proof (cases "i = k")
      case True
      have "lower (L k k) (vec (store (stage k ?s1) Ft_rhs ! k))
            + (\<Sum>j<k. full (L k j) (vec (store (stage k ?s1) Ft_rhs ! j)))
          = vec (?r1 ! k) + (\<Sum>j<k. full (L k j) (vec (?r1 ! j)))"
        by (simp add: below entry z)
      also have "\<dots> = vec (b k)"
        using IH(4) k by simp
      finally show ?thesis
        using True by simp
    next
      case False
      with that have i: "i < k" by simp
      have "(\<Sum>j<i. full (L i j) (vec (store (stage k ?s1) Ft_rhs ! j)))
          = (\<Sum>j<i. full (L i j) (vec (?r1 ! j)))"
        by (rule sum.cong) (use i in \<open>simp_all add: entry\<close>)
      with IH(3) i show ?thesis
        by (simp add: entry)
    qed
    have pending: "vec (store (stage k ?s1) Ft_rhs ! i)
        = vec (b i) - (\<Sum>j<Suc k. full (L i j) (vec (store (stage k ?s1) Ft_rhs ! j)))"
      if "Suc k \<le> i" "i < n" for i
    proof -
      have "k \<le> i \<and> i < n"
        using that by simp
      with IH(4) have "vec (?r1 ! i) = vec (b i) - (\<Sum>j<k. full (L i j) (vec (?r1 ! j)))"
        by blast
      moreover have "(\<Sum>j<Suc k. full (L i j) (vec (store (stage k ?s1) Ft_rhs ! j)))
          = (\<Sum>j<k. full (L i j) (vec (?r1 ! j))) + full (L i k) (vec ?z)"
        by (simp add: below entry)
      ultimately show ?thesis
        unfolding updated [OF that] by (simp add: algebra_simps)
    qed
    show ?case
      unfolding next_state using tiles length solved pending by blast
  qed
  from inv [of n] show ?thesis
    by (simp add: run L_def b_def rd_def tile_def)
qed

lemma backward_substitution:
  fixes K :: "'t mkl" and vec :: "'t \<Rightarrow> 'v::ab_group_add" and lowerT fullT :: "'t \<Rightarrow> 'v \<Rightarrow> 'v"
  assumes solve: "\<forall>k<n. \<forall>b. lowerT (rd s (tile n k k)) (vec (mkl_trsv_u K (rd s (tile n k k)) b N))
                            = vec b"
    and upd: "\<forall>k<n. \<forall>m<k. \<forall>x b. vec (mkl_gemv_u K (rd s (tile n k m)) x b N)
                            = vec b - fullT (rd s (tile n k m)) (vec x)"
    and len: "n \<le> length (store s Ft_rhs)"
  shows "store (backward_solve_tiled K N n s) Ft_tiles = store s Ft_tiles
       \<and> length (store (backward_solve_tiled K N n s) Ft_rhs) = length (store s Ft_rhs)
       \<and> (\<forall>i<n. lowerT (rd s (tile n i i)) (vec (rd (backward_solve_tiled K N n s) (Ft_rhs, i)))
                 + (\<Sum>k\<in>{Suc i..<n}. fullT (rd s (tile n k i))
                       (vec (rd (backward_solve_tiled K N n s) (Ft_rhs, k))))
                 = vec (rd s (Ft_rhs, i)))"
proof -
  define stage where "stage = (\<lambda>k s0.
       fold (\<lambda>m.
         dataflow3 Mkl_gemv_u (\<lambda>A a b. mkl_gemv_u K A a b N)
           (Ft_tiles, k * n + m) (Ft_rhs, k) (Ft_rhs, m) (Ft_rhs, m)) (rev [0..<k])
         (dataflow2 Mkl_trsv_u (\<lambda>L a. mkl_trsv_u K L a N)
           (Ft_tiles, k * n + k) (Ft_rhs, k) (Ft_rhs, k) s0))"
  define L where "L i j = store s Ft_tiles ! (i * n + j)" for i j
  define y where "y i = store s Ft_rhs ! i" for i
  have "nat (int n - 1 + 1) = n" "\<And>k. nat (int k - 1 + 1) = k"
    by simp_all
  then have run: "backward_solve_tiled K N n s = fold stage (rev [0..<n]) s"
    by (simp add: backward_solve_tiled_def for_down_eq_fold stage_def tile_def)
  have inv: "store (fold stage (rev [l..<n]) s) Ft_tiles = store s Ft_tiles
       \<and> length (store (fold stage (rev [l..<n]) s) Ft_rhs) = length (store s Ft_rhs)
       \<and> (\<forall>i. l \<le> i \<and> i < n \<longrightarrow>
             lowerT (L i i) (vec (store (fold stage (rev [l..<n]) s) Ft_rhs ! i))
             + (\<Sum>k\<in>{Suc i..<n}. fullT (L k i) (vec (store (fold stage (rev [l..<n]) s) Ft_rhs ! k)))
             = vec (y i))
       \<and> (\<forall>i<l. vec (store (fold stage (rev [l..<n]) s) Ft_rhs ! i)
             = vec (y i)
               - (\<Sum>k\<in>{l..<n}. fullT (L k i) (vec (store (fold stage (rev [l..<n]) s) Ft_rhs ! k))))"
    if "l \<le> n" for l
    using that
  proof (induction l rule: inc_induct)
    case base
    then show ?case by (auto simp add: y_def)
  next
    case (step l)
    let ?s1 = "fold stage (rev [Suc l..<n]) s"
    let ?r1 = "store ?s1 Ft_rhs"
    let ?z = "mkl_trsv_u K (L l l) (?r1 ! l) N"
    from step have l: "l < n" and IH:
      "store ?s1 Ft_tiles = store s Ft_tiles"
      "length ?r1 = length (store s Ft_rhs)"
      "\<forall>i. Suc l \<le> i \<and> i < n \<longrightarrow>
          lowerT (L i i) (vec (?r1 ! i)) + (\<Sum>k\<in>{Suc i..<n}. fullT (L k i) (vec (?r1 ! k))) = vec (y i)"
      "\<forall>i<Suc l. vec (?r1 ! i) = vec (y i) - (\<Sum>k\<in>{Suc l..<n}. fullT (L k i) (vec (?r1 ! k)))"
      by simp_all
    have pre: "l < length ?r1" "distinct (rev [0..<l])" "l \<notin> set (rev [0..<l])"
      "\<forall>m\<in>set (rev [0..<l]). m < length ?r1"
      using l len IH(2) by simp_all
    note st = solve_stage [OF pre, of Mkl_gemv_u "\<lambda>A a b. mkl_gemv_u K A a b N" "\<lambda>m. l * n + m"
        Mkl_trsv_u "\<lambda>L a. mkl_trsv_u K L a N" "l * n + l"]
    have next_state: "fold stage (rev [l..<n]) s = stage l ?s1"
      using l by (simp add: upt_conv_Cons)
    have tiles: "store (stage l ?s1) Ft_tiles = store s Ft_tiles"
      and length: "length (store (stage l ?s1) Ft_rhs) = length (store s Ft_rhs)"
      using st IH(1,2) by (simp_all add: stage_def)
    have entry: "store (stage l ?s1) Ft_rhs ! i
        = (if i = l then ?z else if i < l then mkl_gemv_u K (L l i) ?z (?r1 ! i) N else ?r1 ! i)"
      for i
      using st IH(1) by (simp add: stage_def L_def)
    have updated: "vec (store (stage l ?s1) Ft_rhs ! i) = vec (?r1 ! i) - fullT (L l i) (vec ?z)"
      if "i < l" for i
      using that upd l by (simp add: entry L_def rd_def tile_def)
    have z: "lowerT (L l l) (vec (mkl_trsv_u K (L l l) v N)) = vec v" for v
      using solve l by (simp add: L_def rd_def tile_def)
    have above: "(\<Sum>k\<in>{Suc l..<n}. fullT (L k i) (vec (store (stage l ?s1) Ft_rhs ! k)))
        = (\<Sum>k\<in>{Suc l..<n}. fullT (L k i) (vec (?r1 ! k)))" for i
      by (rule sum.cong) (simp_all add: entry)
    have solved: "lowerT (L i i) (vec (store (stage l ?s1) Ft_rhs ! i))
          + (\<Sum>k\<in>{Suc i..<n}. fullT (L k i) (vec (store (stage l ?s1) Ft_rhs ! k))) = vec (y i)"
      if "l \<le> i" "i < n" for i
    proof (cases "i = l")
      case True
      have "lowerT (L l l) (vec (store (stage l ?s1) Ft_rhs ! l))
            + (\<Sum>k\<in>{Suc l..<n}. fullT (L k l) (vec (store (stage l ?s1) Ft_rhs ! k)))
          = vec (?r1 ! l) + (\<Sum>k\<in>{Suc l..<n}. fullT (L k l) (vec (?r1 ! k)))"
        by (simp add: above entry z)
      also have "\<dots> = vec (y l)"
        using IH(4) by simp
      finally show ?thesis
        using True by simp
    next
      case False
      with that have i: "Suc l \<le> i" by simp
      have "(\<Sum>k\<in>{Suc i..<n}. fullT (L k i) (vec (store (stage l ?s1) Ft_rhs ! k)))
          = (\<Sum>k\<in>{Suc i..<n}. fullT (L k i) (vec (?r1 ! k)))"
        by (rule sum.cong) (use i in \<open>simp_all add: entry\<close>)
      with IH(3) i that show ?thesis
        by (simp add: entry)
    qed
    have pending: "vec (store (stage l ?s1) Ft_rhs ! i)
        = vec (y i) - (\<Sum>k\<in>{l..<n}. fullT (L k i) (vec (store (stage l ?s1) Ft_rhs ! k)))"
      if "i < l" for i
    proof -
      have "i < Suc l"
        using that by simp
      with IH(4) have "vec (?r1 ! i) = vec (y i) - (\<Sum>k\<in>{Suc l..<n}. fullT (L k i) (vec (?r1 ! k)))"
        by blast
      moreover have "(\<Sum>k\<in>{l..<n}. fullT (L k i) (vec (store (stage l ?s1) Ft_rhs ! k)))
          = fullT (L l i) (vec ?z) + (\<Sum>k\<in>{Suc l..<n}. fullT (L k i) (vec (?r1 ! k)))"
        using l by (simp add: sum.atLeast_Suc_lessThan above entry)
      ultimately show ?thesis
        unfolding updated [OF that] by (simp add: algebra_simps)
    qed
    show ?case
      unfolding next_state using tiles length solved pending by blast
  qed
  from inv [of 0] show ?thesis
    by (simp add: run L_def y_def rd_def tile_def)
qed

lemma fold_preserves:
  "(\<And>x s. g (f x s) = g s) \<Longrightarrow> g (fold f xs s) = g s"
  by (induction xs arbitrary: s) simp_all

lemma forward_frame:
  "store (forward_solve_tiled K N n s) Ft_tiles = store s Ft_tiles
   \<and> length (store (forward_solve_tiled K N n s) Ft_rhs) = length (store s Ft_rhs)"
proof -
  let ?g = "\<lambda>s :: 'a sched. (store s Ft_tiles, length (store s Ft_rhs))"
  have inner: "?g (fold (\<lambda>m. dataflow3 k3 f3 (r1 m) (r2 m) (r3 m) (Ft_rhs, m)) ms s1) = ?g s1"
    for k3 f3 r1 r2 r3 ms and s1 :: "'a sched"
    by (rule fold_preserves) (simp add: dataflow3_def)
  have "?g (forward_solve_tiled K N n s) = ?g s"
    unfolding forward_solve_tiled_def for_up_eq_fold
    by (rule fold_preserves) (simp add: inner, simp add: dataflow2_def)
  then show ?thesis
    by simp
qed

lemma backward_frame:
  "store (backward_solve_tiled K N n s) Ft_tiles = store s Ft_tiles
   \<and> length (store (backward_solve_tiled K N n s) Ft_rhs) = length (store s Ft_rhs)"
proof -
  let ?g = "\<lambda>s :: 'a sched. (store s Ft_tiles, length (store s Ft_rhs))"
  have inner: "?g (fold (\<lambda>m. dataflow3 k3 f3 (r1 m) (r2 m) (r3 m) (Ft_rhs, m)) ms s1) = ?g s1"
    for k3 f3 r1 r2 r3 ms and s1 :: "'a sched"
    by (rule fold_preserves) (simp add: dataflow3_def)
  have "?g (backward_solve_tiled K N n s) = ?g s"
    unfolding backward_solve_tiled_def for_down_eq_fold
    by (rule fold_preserves) (simp add: inner, simp add: dataflow2_def)
  then show ?thesis
    by simp
qed

lemma block_substitution:
  fixes K :: "'t mkl" and vec :: "'t \<Rightarrow> 'v::ab_group_add"
    and lower lowerT full fullT :: "'t \<Rightarrow> 'v \<Rightarrow> 'v"
  assumes len: "n \<le> length (store s Ft_rhs)"
  shows "(\<forall>k<n. \<forall>a. lower (rd s (tile n k k)) (vec (mkl_trsv_l K (rd s (tile n k k)) a N)) = vec a)
         \<and> (\<forall>m<n. \<forall>k<m. \<forall>a c. vec (mkl_gemv_l K (rd s (tile n m k)) a c N)
                                = vec c - full (rd s (tile n m k)) (vec a))
         \<longrightarrow> (\<forall>i<n. lower (rd s (tile n i i)) (vec (rd (forward_solve_tiled K N n s) (Ft_rhs, i)))
                    + (\<Sum>j<i. full (rd s (tile n i j))
                               (vec (rd (forward_solve_tiled K N n s) (Ft_rhs, j))))
                    = vec (rd s (Ft_rhs, i)))"
    and "(\<forall>k<n. \<forall>a. lowerT (rd s (tile n k k)) (vec (mkl_trsv_u K (rd s (tile n k k)) a N)) = vec a)
         \<and> (\<forall>k<n. \<forall>m<k. \<forall>a c. vec (mkl_gemv_u K (rd s (tile n k m)) a c N)
                                = vec c - fullT (rd s (tile n k m)) (vec a))
         \<longrightarrow> (\<forall>i<n. lowerT (rd s (tile n i i))
                      (vec (rd (backward_solve_tiled K N n (forward_solve_tiled K N n s)) (Ft_rhs, i)))
                    + (\<Sum>k\<in>{Suc i..<n}. fullT (rd s (tile n k i))
                         (vec (rd (backward_solve_tiled K N n (forward_solve_tiled K N n s))
                                (Ft_rhs, k))))
                    = vec (rd (forward_solve_tiled K N n s) (Ft_rhs, i)))"
proof -
  let ?s1 = "forward_solve_tiled K N n s"
  show "(\<forall>k<n. \<forall>a. lower (rd s (tile n k k)) (vec (mkl_trsv_l K (rd s (tile n k k)) a N)) = vec a)
         \<and> (\<forall>m<n. \<forall>k<m. \<forall>a c. vec (mkl_gemv_l K (rd s (tile n m k)) a c N)
                                = vec c - full (rd s (tile n m k)) (vec a))
         \<longrightarrow> (\<forall>i<n. lower (rd s (tile n i i)) (vec (rd ?s1 (Ft_rhs, i)))
                    + (\<Sum>j<i. full (rd s (tile n i j)) (vec (rd ?s1 (Ft_rhs, j))))
                    = vec (rd s (Ft_rhs, i)))"
    using forward_substitution [where vec = vec and lower = lower and full = full and K = K
        and N = N, OF _ _ len] by blast
  have tiles: "rd ?s1 (tile n i j) = rd s (tile n i j)" for i j
    using forward_frame [of K N n s] by (simp add: rd_def tile_def)
  have len1: "n \<le> length (store ?s1 Ft_rhs)"
    using forward_frame [of K N n s] len by simp
  show "(\<forall>k<n. \<forall>a. lowerT (rd s (tile n k k)) (vec (mkl_trsv_u K (rd s (tile n k k)) a N)) = vec a)
         \<and> (\<forall>k<n. \<forall>m<k. \<forall>a c. vec (mkl_gemv_u K (rd s (tile n k m)) a c N)
                                = vec c - fullT (rd s (tile n k m)) (vec a))
         \<longrightarrow> (\<forall>i<n. lowerT (rd s (tile n i i)) (vec (rd (backward_solve_tiled K N n ?s1) (Ft_rhs, i)))
                    + (\<Sum>k\<in>{Suc i..<n}. fullT (rd s (tile n k i))
                         (vec (rd (backward_solve_tiled K N n ?s1) (Ft_rhs, k))))
                    = vec (rd ?s1 (Ft_rhs, i)))"
    using backward_substitution [where vec = vec and lowerT = lowerT and fullT = fullT and K = K
        and N = N, OF _ _ len1] unfolding tiles by blast
qed

subsection \<open>The solve and update kernels of the device adapter on dense tiles\<close>

text \<open>
  The triangular solve of the adapter inverts the application of the lower
  triangle of its tile (of the transposed lower triangle, when transposition
  is asked for), whatever the tile holds above the diagonal, provided the
  diagonal entries are not zero; the update subtracts the application of the
  whole tile (of the transposed tile).
\<close>

lemma sum_list_cong_upt:
  "(\<And>j. m \<le> j \<Longrightarrow> j < n \<Longrightarrow> f j = g j) \<Longrightarrow> (\<Sum>j\<leftarrow>[m..<n]. f j) = (\<Sum>j\<leftarrow>[m..<n]. g j)"
  by (rule arg_cong [where f = sum_list]) simp

lemma trsv_lower_prefix:
  fixes L a :: "real list"
  assumes nz: "\<forall>i<N. L ! (i * N + i) \<noteq> 0" and "n \<le> N"
  defines "step \<equiv> \<lambda>i x. x @ [(a ! i - (\<Sum>j\<leftarrow>[0..<i]. L ! (i * N + j) * x ! j)) / L ! (i * N + i)]"
  shows "length (fold step [0..<n] []) = n
       \<and> (\<forall>i<n. (\<Sum>j\<leftarrow>[0..<Suc i]. L ! (i * N + j) * fold step [0..<n] [] ! j) = a ! i)"
  using \<open>n \<le> N\<close>
proof (induction n)
  case 0
  then show ?case by simp
next
  case (Suc n)
  let ?X = "fold step [0..<n] []"
  let ?v = "(a ! n - (\<Sum>j\<leftarrow>[0..<n]. L ! (n * N + j) * ?X ! j)) / L ! (n * N + n)"
  from Suc have n: "n < N" and len: "length ?X = n"
    and IH: "\<forall>i<n. (\<Sum>j\<leftarrow>[0..<Suc i]. L ! (i * N + j) * ?X ! j) = a ! i"
    by simp_all
  have next_list: "fold step [0..<Suc n] [] = ?X @ [?v]"
    by (simp add: step_def)
  have d: "L ! (n * N + n) \<noteq> 0"
    using nz n by simp
  have old: "(\<Sum>j\<leftarrow>[0..<m]. L ! (i * N + j) * (?X @ [?v]) ! j) = (\<Sum>j\<leftarrow>[0..<m]. L ! (i * N + j) * ?X ! j)"
    if "m \<le> n" for i m
    by (rule sum_list_cong_upt) (use that len in \<open>simp add: nth_append\<close>)
  have "(\<Sum>j\<leftarrow>[0..<Suc i]. L ! (i * N + j) * (?X @ [?v]) ! j) = a ! i" if "i < Suc n" for i
  proof (cases "i = n")
    case True
    have "(\<Sum>j\<leftarrow>[0..<Suc n]. L ! (n * N + j) * (?X @ [?v]) ! j)
        = (\<Sum>j\<leftarrow>[0..<n]. L ! (n * N + j) * ?X ! j) + L ! (n * N + n) * ?v"
      using old [of n n] len by (simp add: nth_append)
    also have "\<dots> = a ! n"
      using d by simp
    finally show ?thesis
      using True by simp
  next
    case False
    with that have "i < n" by simp
    then show ?thesis
      using old [of "Suc i" i] IH by simp
  qed
  then show ?case
    unfolding next_list using len by simp
qed

lemma trsv_upper_suffix:
  fixes L a :: "real list"
  assumes nz: "\<forall>i<N. L ! (i * N + i) \<noteq> 0" and "l \<le> N"
  defines "step \<equiv> \<lambda>i x. (a ! i - (\<Sum>k\<leftarrow>[Suc i..<N]. L ! (k * N + i) * x ! (k - Suc i)))
                            / L ! (i * N + i) # x"
  shows "length (fold step (rev [l..<N]) []) = N - l
       \<and> (\<forall>i. l \<le> i \<and> i < N \<longrightarrow>
            (\<Sum>k\<leftarrow>[i..<N]. L ! (k * N + i) * fold step (rev [l..<N]) [] ! (k - l)) = a ! i)"
  using \<open>l \<le> N\<close>
proof (induction l rule: inc_induct)
  case base
  then show ?case by simp
next
  case (step l)
  let ?Y = "fold step (rev [Suc l..<N]) []"
  let ?v = "(a ! l - (\<Sum>k\<leftarrow>[Suc l..<N]. L ! (k * N + l) * ?Y ! (k - Suc l))) / L ! (l * N + l)"
  from step have l: "l < N" and len: "length ?Y = N - Suc l"
    and IH: "\<forall>i. Suc l \<le> i \<and> i < N \<longrightarrow>
               (\<Sum>k\<leftarrow>[i..<N]. L ! (k * N + i) * ?Y ! (k - Suc l)) = a ! i"
    by simp_all
  have next_list: "fold step (rev [l..<N]) [] = ?v # ?Y"
    using l by (simp add: upt_conv_Cons step_def)
  have d: "L ! (l * N + l) \<noteq> 0"
    using nz l by simp
  have old: "(\<Sum>k\<leftarrow>[m..<N]. L ! (k * N + i) * (?v # ?Y) ! (k - l))
           = (\<Sum>k\<leftarrow>[m..<N]. L ! (k * N + i) * ?Y ! (k - Suc l))"
    if "Suc l \<le> m" for i m
    by (rule sum_list_cong_upt) (use that in \<open>simp add: nth_Cons'\<close>)
  have "(\<Sum>k\<leftarrow>[i..<N]. L ! (k * N + i) * (?v # ?Y) ! (k - l)) = a ! i" if "l \<le> i" "i < N" for i
  proof (cases "i = l")
    case True
    have "(\<Sum>k\<leftarrow>[l..<N]. L ! (k * N + l) * (?v # ?Y) ! (k - l))
        = L ! (l * N + l) * ?v + (\<Sum>k\<leftarrow>[Suc l..<N]. L ! (k * N + l) * ?Y ! (k - Suc l))"
      using old [of "Suc l" l] l by (simp add: upt_conv_Cons)
    also have "\<dots> = a ! l"
      using d by simp
    finally show ?thesis
      using True by simp
  next
    case False
    with that have "Suc l \<le> i" by simp
    then show ?thesis
      using old [of i i] IH that by simp
  qed
  then show ?case
    unfolding next_list using len l by auto
qed

lemma trsv_lower_solves:
  assumes "\<forall>i<N. L ! (i * N + i) \<noteq> 0"
  shows "lower_apply N L (vec_of N (trsv L a N Blas_no_trans)) = vec_of N a"
proof -
  note p = trsv_lower_prefix [OF assms order_refl, of a]
  have nth: "trsv L a N Blas_no_trans ! j
      = fold (\<lambda>i x. x @ [(a ! i - (\<Sum>j\<leftarrow>[0..<i]. L ! (i * N + j) * x ! j)) / L ! (i * N + i)])
          [0..<N] [] ! j" if "j < N" for j
    using that p by (simp add: trsv_def nth_append)
  have "(\<Sum>j\<leftarrow>[0..<Suc i]. L ! (i * N + j) * entry (vec_of N (trsv L a N Blas_no_trans)) j) = a ! i"
    if "i < N" for i
  proof -
    have "(\<Sum>j\<leftarrow>[0..<Suc i]. L ! (i * N + j) * entry (vec_of N (trsv L a N Blas_no_trans)) j)
        = (\<Sum>j\<leftarrow>[0..<Suc i]. L ! (i * N + j)
             * fold (\<lambda>i x. x @ [(a ! i - (\<Sum>j\<leftarrow>[0..<i]. L ! (i * N + j) * x ! j)) / L ! (i * N + i)])
                 [0..<N] [] ! j)"
      by (rule sum_list_cong_upt) (use that in \<open>simp add: vec_of_def nth\<close>)
    with p that show ?thesis
      by simp
  qed
  then show ?thesis
    by (simp add: lower_apply_def vec_of_def fun_eq_iff)
qed

lemma trsv_upper_solves:
  assumes "\<forall>i<N. L ! (i * N + i) \<noteq> 0"
  shows "lowerT_apply N L (vec_of N (trsv L a N Blas_trans)) = vec_of N a"
proof -
  have z: "(0::nat) \<le> N"
    by simp
  note p = trsv_upper_suffix [OF assms z, of a]
  have nth: "trsv L a N Blas_trans ! j
      = fold (\<lambda>i x. (a ! i - (\<Sum>k\<leftarrow>[Suc i..<N]. L ! (k * N + i) * x ! (k - Suc i)))
                        / L ! (i * N + i) # x) (rev [0..<N]) [] ! j" if "j < N" for j
    using that p by (simp add: trsv_def nth_append)
  have "(\<Sum>k\<leftarrow>[i..<N]. L ! (k * N + i) * entry (vec_of N (trsv L a N Blas_trans)) k) = a ! i"
    if "i < N" for i
  proof -
    have "(\<Sum>k\<leftarrow>[i..<N]. L ! (k * N + i) * entry (vec_of N (trsv L a N Blas_trans)) k)
        = (\<Sum>k\<leftarrow>[i..<N]. L ! (k * N + i)
             * fold (\<lambda>i x. (a ! i - (\<Sum>k\<leftarrow>[Suc i..<N]. L ! (k * N + i) * x ! (k - Suc i)))
                        / L ! (i * N + i) # x) (rev [0..<N]) [] ! (k - 0))"
      by (rule sum_list_cong_upt) (simp add: vec_of_def nth)
    with p that show ?thesis
      by simp
  qed
  then show ?thesis
    by (simp add: lowerT_apply_def vec_of_def fun_eq_iff)
qed

lemma gemv_trans_nth:
  "j < M \<Longrightarrow> gemv A a b N M alpha Blas_trans ! j
     = b ! j + alpha * (\<Sum>i\<leftarrow>[0..<N]. A ! (i * M + j) * a ! i)"
  by (simp add: gemv_def cblas_dgemv_def nth_append)

lemma gemv_subtracts:
  "vec_of N (gemv A a b N N (- 1) Blas_no_trans) = vec_of N b - full_apply N A (vec_of N a)"
proof -
  have "(\<Sum>j\<leftarrow>[0..<N]. A ! (i * N + j) * entry (vec_of N a) j) = (\<Sum>j\<leftarrow>[0..<N]. A ! (i * N + j) * a ! j)"
    for i
    by (rule sum_list_cong_upt) (simp add: vec_of_def)
  then show ?thesis
    by (simp add: vec_of_def full_apply_def minus_rvec_def fun_eq_iff gemv_nth)
qed

lemma gemv_trans_subtracts:
  "vec_of N (gemv A a b N N (- 1) Blas_trans) = vec_of N b - fullT_apply N A (vec_of N a)"
proof -
  have "(\<Sum>i\<leftarrow>[0..<N]. A ! (i * N + j) * entry (vec_of N a) i) = (\<Sum>i\<leftarrow>[0..<N]. A ! (i * N + j) * a ! i)"
    for j
    by (rule sum_list_cong_upt) (simp add: vec_of_def)
  then show ?thesis
    by (simp add: vec_of_def fullT_apply_def minus_rvec_def fun_eq_iff gemv_trans_nth)
qed

subsection \<open>Block substitution\<close>

text \<open>
  Claim C5. \<open>forward_solve_tiled\<close> issues, for \<open>k = 0, \<dots>, n_tiles - 1\<close>, the
  solve of right-hand-side tile \<open>k\<close> against factor tile \<open>(k,k)\<close> and then, for
  each \<open>m > k\<close>, the update of right-hand-side tile \<open>m\<close> from factor tile
  \<open>(m,k)\<close> and the solution in tile \<open>k\<close>; \<open>backward_solve_tiled\<close> issues the
  mirror image, \<open>k\<close> from \<open>n_tiles - 1\<close> down to 0 and \<open>m\<close> from \<open>k - 1\<close> down
  to 0, with factor tile \<open>(k,m)\<close>; neither writes a factor tile. This holds for
  all kernels.

  The kernels of \<^verbatim>\<open>mkl_adapter.hpp\<close> are parameters. A diagonal factor tile acts
  on a vector through its lower triangle (\<open>lower\<close>, transposed \<open>lowerT\<close>), a tile
  below the diagonal through all its entries (\<open>full\<close>, transposed \<open>fullT\<close>);
  \<open>vec\<close> reads a right-hand-side tile as a vector. When the triangular solves
  invert the action of the diagonal tiles of the factor, and the updates
  subtract the action of the tiles below the diagonal that they are handed,
  then in exact arithmetic the forward solve yields \<open>y\<close> with \<open>L y = b\<close>, the
  backward solve after it yields \<open>x\<close> with \<open>L\<^sup>T x = y\<close>, both in block form, and
  so \<open>L (L\<^sup>T x) = b\<close>. Nothing is asked of the kernels on other tiles, and nothing
  of the entries above the diagonal.

  The solve and update kernels of the device adapter are such kernels, for
  every tile size \<open>N\<close> and every factor whose diagonal tiles have non-zero
  diagonal entries: with them the two equations hold entry by entry. Rounding
  is not modelled: the entries are real numbers.
\<close>

theorem tiled_solves_block_substitution:
  fixes K :: "'t mkl" and vec :: "'t \<Rightarrow> 'v::ab_group_add"
    and lower lowerT full fullT :: "'t \<Rightarrow> 'v \<Rightarrow> 'v" and sd :: "real list sched"
  shows
    "(let s1 = forward_solve_tiled K N n s;
          s2 = backward_solve_tiled K N n s1;
          L = (\<lambda>i j. rd s (tile n i j));
          b = (\<lambda>i. vec (rd s (Ft_rhs, i)));
          y = (\<lambda>i. vec (rd s1 (Ft_rhs, i)));
          x = (\<lambda>i. vec (rd s2 (Ft_rhs, i)));
          forward_kernels =
            ((\<forall>k<n. \<forall>a. lower (L k k) (vec (mkl_trsv_l K (L k k) a N)) = vec a)
             \<and> (\<forall>m<n. \<forall>k<m. \<forall>a c. vec (mkl_gemv_l K (L m k) a c N) = vec c - full (L m k) (vec a)));
          backward_kernels =
            ((\<forall>k<n. \<forall>a. lowerT (L k k) (vec (mkl_trsv_u K (L k k) a N)) = vec a)
             \<and> (\<forall>k<n. \<forall>m<k. \<forall>a c. vec (mkl_gemv_u K (L k m) a c N) = vec c - fullT (L k m) (vec a)))
      in issued s1 = issued s @ forward_calls n
       \<and> issued s2 = issued s @ forward_calls n @ backward_calls n
       \<and> store s2 Ft_tiles = store s Ft_tiles
       \<and> (n \<le> length (store s Ft_rhs) \<and> forward_kernels \<longrightarrow>
            (\<forall>i<n. lower (L i i) (y i) + (\<Sum>j<i. full (L i j) (y j)) = b i))
       \<and> (n \<le> length (store s Ft_rhs) \<and> backward_kernels \<longrightarrow>
            (\<forall>i<n. lowerT (L i i) (x i) + (\<Sum>k\<in>{Suc i..<n}. fullT (L k i) (x k)) = y i))
       \<and> (n \<le> length (store s Ft_rhs) \<and> forward_kernels \<and> backward_kernels \<longrightarrow>
            (\<forall>i<n. lower (L i i) (lowerT (L i i) (x i) + (\<Sum>k\<in>{Suc i..<n}. fullT (L k i) (x k)))
                   + (\<Sum>j<i. full (L i j)
                        (lowerT (L j j) (x j) + (\<Sum>k\<in>{Suc j..<n}. fullT (L k j) (x k))))
                   = b i)))
     \<and> (let d1 = forward_solve_tiled adapter_mkl N n sd;
             d2 = backward_solve_tiled adapter_mkl N n d1;
             L = (\<lambda>i j. rd sd (tile n i j));
             b = (\<lambda>i. vec_of N (rd sd (Ft_rhs, i)));
             y = (\<lambda>i. vec_of N (rd d1 (Ft_rhs, i)));
             x = (\<lambda>i. vec_of N (rd d2 (Ft_rhs, i)))
         in n \<le> length (store sd Ft_rhs) \<and> (\<forall>k<n. \<forall>i<N. L k k ! (i * N + i) \<noteq> 0) \<longrightarrow>
              (\<forall>i<n. lower_apply N (L i i) (y i) + (\<Sum>j<i. full_apply N (L i j) (y j)) = b i)
            \<and> (\<forall>i<n. lowerT_apply N (L i i) (x i)
                      + (\<Sum>k\<in>{Suc i..<n}. fullT_apply N (L k i) (x k)) = y i))"
proof -
  let ?s1 = "forward_solve_tiled K N n s"
  let ?s2 = "backward_solve_tiled K N n ?s1"
  let ?L = "\<lambda>i j. rd s (tile n i j)"
  let ?y = "\<lambda>i. vec (rd ?s1 (Ft_rhs, i))"
  let ?x = "\<lambda>i. vec (rd ?s2 (Ft_rhs, i))"
  let ?F = "(\<forall>k<n. \<forall>a. lower (?L k k) (vec (mkl_trsv_l K (?L k k) a N)) = vec a)
             \<and> (\<forall>m<n. \<forall>k<m. \<forall>a c. vec (mkl_gemv_l K (?L m k) a c N) = vec c - full (?L m k) (vec a))"
  let ?B = "(\<forall>k<n. \<forall>a. lowerT (?L k k) (vec (mkl_trsv_u K (?L k k) a N)) = vec a)
             \<and> (\<forall>k<n. \<forall>m<k. \<forall>a c. vec (mkl_gemv_u K (?L k m) a c N) = vec c - fullT (?L k m) (vec a))"
  let ?fw = "\<forall>i<n. lower (?L i i) (?y i) + (\<Sum>j<i. full (?L i j) (?y j)) = vec (rd s (Ft_rhs, i))"
  let ?bw = "\<forall>i<n. lowerT (?L i i) (?x i) + (\<Sum>k\<in>{Suc i..<n}. fullT (?L k i) (?x k)) = ?y i"
  have p1: "issued ?s1 = issued s @ forward_calls n"
    and p2: "issued ?s2 = issued s @ forward_calls n @ backward_calls n"
    by (simp_all add: issued_forward issued_backward)
  have p3: "store ?s2 Ft_tiles = store s Ft_tiles"
    using forward_frame [of K N n s] backward_frame [of K N n ?s1] by simp
  have fw': ?fw if len: "n \<le> length (store s Ft_rhs)" and F: ?F
    using block_substitution(1) [OF len, where vec = vec and lower = lower and full = full
        and K = K and N = N] F by (rule mp)
  have bw': ?bw if len: "n \<le> length (store s Ft_rhs)" and B: ?B
    using block_substitution(2) [OF len, where vec = vec and lowerT = lowerT and fullT = fullT
        and K = K and N = N] B by (rule mp)
  have fw: "n \<le> length (store s Ft_rhs) \<and> ?F \<longrightarrow> ?fw"
  proof (rule impI)
    assume h: "n \<le> length (store s Ft_rhs) \<and> ?F"
    show ?fw
      by (rule fw' [OF conjunct1 [OF h] conjunct2 [OF h]])
  qed
  have bw: "n \<le> length (store s Ft_rhs) \<and> ?B \<longrightarrow> ?bw"
  proof (rule impI)
    assume h: "n \<le> length (store s Ft_rhs) \<and> ?B"
    show ?bw
      by (rule bw' [OF conjunct1 [OF h] conjunct2 [OF h]])
  qed
  have both: "n \<le> length (store s Ft_rhs) \<and> ?F \<and> ?B \<longrightarrow>
       (\<forall>i<n. lower (?L i i) (lowerT (?L i i) (?x i) + (\<Sum>k\<in>{Suc i..<n}. fullT (?L k i) (?x k)))
                   + (\<Sum>j<i. full (?L i j)
                        (lowerT (?L j j) (?x j) + (\<Sum>k\<in>{Suc j..<n}. fullT (?L k j) (?x k))))
                   = vec (rd s (Ft_rhs, i)))"
  proof (intro allI impI)
    fix i
    assume h: "n \<le> length (store s Ft_rhs) \<and> ?F \<and> ?B" and i: "i < n"
    have f: ?fw
      by (rule fw' [OF conjunct1 [OF h] conjunct1 [OF conjunct2 [OF h]]])
    have g: ?bw
      by (rule bw' [OF conjunct1 [OF h] conjunct2 [OF conjunct2 [OF h]]])
    have g': "lowerT (?L j j) (?x j) + (\<Sum>k\<in>{Suc j..<n}. fullT (?L k j) (?x k)) = ?y j" if "j < n" for j
      using g that by simp
    have "(\<Sum>j<i. full (?L i j) (lowerT (?L j j) (?x j) + (\<Sum>k\<in>{Suc j..<n}. fullT (?L k j) (?x k))))
        = (\<Sum>j<i. full (?L i j) (?y j))"
      by (rule sum.cong) (use g' i in simp_all)
    moreover have "lower (?L i i) (?y i) + (\<Sum>j<i. full (?L i j) (?y j)) = vec (rd s (Ft_rhs, i))"
      using f i by simp
    ultimately
    show "lower (?L i i) (lowerT (?L i i) (?x i) + (\<Sum>k\<in>{Suc i..<n}. fullT (?L k i) (?x k)))
                   + (\<Sum>j<i. full (?L i j)
                        (lowerT (?L j j) (?x j) + (\<Sum>k\<in>{Suc j..<n}. fullT (?L k j) (?x k))))
                   = vec (rd s (Ft_rhs, i))"
      by (simp only: g' [OF i])
  qed
  let ?d1 = "forward_solve_tiled adapter_mkl N n sd"
  let ?d2 = "backward_solve_tiled adapter_mkl N n ?d1"
  let ?D = "\<lambda>i j. rd sd (tile n i j)"
  have dense: "n \<le> length (store sd Ft_rhs) \<and> (\<forall>k<n. \<forall>i<N. ?D k k ! (i * N + i) \<noteq> 0) \<longrightarrow>
               (\<forall>i<n. lower_apply N (?D i i) (vec_of N (rd ?d1 (Ft_rhs, i)))
                  + (\<Sum>j<i. full_apply N (?D i j) (vec_of N (rd ?d1 (Ft_rhs, j))))
                  = vec_of N (rd sd (Ft_rhs, i)))
             \<and> (\<forall>i<n. lowerT_apply N (?D i i) (vec_of N (rd ?d2 (Ft_rhs, i)))
                      + (\<Sum>k\<in>{Suc i..<n}. fullT_apply N (?D k i) (vec_of N (rd ?d2 (Ft_rhs, k))))
                  = vec_of N (rd ?d1 (Ft_rhs, i)))"
  proof (rule impI)
    assume h: "n \<le> length (store sd Ft_rhs) \<and> (\<forall>k<n. \<forall>i<N. ?D k k ! (i * N + i) \<noteq> 0)"
    from h have len: "n \<le> length (store sd Ft_rhs)"
      by (rule conjunct1)
    have nz: "\<forall>i<N. ?D k k ! (i * N + i) \<noteq> 0" if "k < n" for k
      using conjunct2 [OF h] that by simp
    have k: "mkl_trsv_l adapter_mkl = (\<lambda>L a N. trsv L a N Blas_no_trans)"
      "mkl_gemv_l adapter_mkl = (\<lambda>A a b N. gemv A a b N N (- 1) Blas_no_trans)"
      "mkl_trsv_u adapter_mkl = (\<lambda>L a N. trsv L a N Blas_trans)"
      "mkl_gemv_u adapter_mkl = (\<lambda>A a b N. gemv A a b N N (- 1) Blas_trans)"
      by (simp_all add: adapter_mkl_def)
    have F: "(\<forall>k<n. \<forall>a. lower_apply N (?D k k) (vec_of N (mkl_trsv_l adapter_mkl (?D k k) a N))
                 = vec_of N a)
           \<and> (\<forall>m<n. \<forall>k<m. \<forall>a c. vec_of N (mkl_gemv_l adapter_mkl (?D m k) a c N)
                 = vec_of N c - full_apply N (?D m k) (vec_of N a))"
      unfolding k by (intro conjI allI impI) (rule trsv_lower_solves [OF nz], assumption, rule gemv_subtracts)
    have B: "(\<forall>k<n. \<forall>a. lowerT_apply N (?D k k) (vec_of N (mkl_trsv_u adapter_mkl (?D k k) a N))
                 = vec_of N a)
           \<and> (\<forall>k<n. \<forall>m<k. \<forall>a c. vec_of N (mkl_gemv_u adapter_mkl (?D k m) a c N)
                 = vec_of N c - fullT_apply N (?D k m) (vec_of N a))"
      unfolding k by (intro conjI allI impI) (rule trsv_upper_solves [OF nz], assumption, rule gemv_trans_subtracts)
    show "(\<forall>i<n. lower_apply N (?D i i) (vec_of N (rd ?d1 (Ft_rhs, i)))
                  + (\<Sum>j<i. full_apply N (?D i j) (vec_of N (rd ?d1 (Ft_rhs, j))))
                  = vec_of N (rd sd (Ft_rhs, i)))
             \<and> (\<forall>i<n. lowerT_apply N (?D i i) (vec_of N (rd ?d2 (Ft_rhs, i)))
                      + (\<Sum>k\<in>{Suc i..<n}. fullT_apply N (?D k i) (vec_of N (rd ?d2 (Ft_rhs, k))))
                  = vec_of N (rd ?d1 (Ft_rhs, i)))"
    proof (rule conjI)
      show "\<forall>i<n. lower_apply N (?D i i) (vec_of N (rd ?d1 (Ft_rhs, i)))
                  + (\<Sum>j<i. full_apply N (?D i j) (vec_of N (rd ?d1 (Ft_rhs, j))))
                  = vec_of N (rd sd (Ft_rhs, i))"
        using block_substitution(1) [OF len, where vec = "vec_of N" and lower = "lower_apply N"
          and full = "full_apply N" and K = adapter_mkl and N = N] F by (rule mp)
      show "\<forall>i<n. lowerT_apply N (?D i i) (vec_of N (rd ?d2 (Ft_rhs, i)))
                      + (\<Sum>k\<in>{Suc i..<n}. fullT_apply N (?D k i) (vec_of N (rd ?d2 (Ft_rhs, k))))
                  = vec_of N (rd ?d1 (Ft_rhs, i))"
        using block_substitution(2) [OF len, where vec = "vec_of N" and lowerT = "lowerT_apply N"
          and fullT = "fullT_apply N" and K = adapter_mkl and N = N] B by (rule mp)
    qed
  qed
  show ?thesis
    unfolding Let_def by (intro conjI p1 p2 p3 fw bw both dense)
qed

theorem tiled_solves_dense_two_tiles:
  "rd (forward_solve_tiled adapter_mkl 2 2 dense_solve_example) (Ft_rhs, 0) = [1, 1]
   \<and> rd (forward_solve_tiled adapter_mkl 2 2 dense_solve_example) (Ft_rhs, 1) = [0, 3]
   \<and> rd (backward_solve_tiled adapter_mkl 2 2
          (forward_solve_tiled adapter_mkl 2 2 dense_solve_example)) (Ft_rhs, 1) = [- 3, 3]
   \<and> rd (backward_solve_tiled adapter_mkl 2 2
          (forward_solve_tiled adapter_mkl 2 2 dense_solve_example)) (Ft_rhs, 0) = [2, 1]
   \<and> issued (backward_solve_tiled adapter_mkl 2 2
          (forward_solve_tiled adapter_mkl 2 2 dense_solve_example)) =
       [Call Mkl_trsv_l [(Ft_tiles, 0), (Ft_rhs, 0)] (Ft_rhs, 0),
        Call Mkl_gemv_l [(Ft_tiles, 2), (Ft_rhs, 0), (Ft_rhs, 1)] (Ft_rhs, 1),
        Call Mkl_trsv_l [(Ft_tiles, 3), (Ft_rhs, 1)] (Ft_rhs, 1),
        Call Mkl_trsv_u [(Ft_tiles, 3), (Ft_rhs, 1)] (Ft_rhs, 1),
        Call Mkl_gemv_u [(Ft_tiles, 2), (Ft_rhs, 1), (Ft_rhs, 0)] (Ft_rhs, 0),
        Call Mkl_trsv_u [(Ft_tiles, 0), (Ft_rhs, 0)] (Ft_rhs, 0)]
   \<and> lower_apply 2 [1, 7, 1, 1] (vec_of 2 [0, 3]) + full_apply 2 [1, 1, 0, 1] (vec_of 2 [1, 1])
       = vec_of 2 [2, 4]
   \<and> lowerT_apply 2 [1, 2, 2, 1] (vec_of 2 [2, 1]) + fullT_apply 2 [1, 1, 0, 1] (vec_of 2 [- 3, 3])
       = vec_of 2 [1, 1]"
proof -
  let ?s1 = "forward_solve_tiled adapter_mkl 2 2 dense_solve_example"
  let ?s2 = "backward_solve_tiled adapter_mkl 2 2 ?s1"
  have y: "rd ?s1 (Ft_rhs, 0) = [1, 1]" "rd ?s1 (Ft_rhs, 1) = [0, 3]"
    and x: "rd ?s2 (Ft_rhs, 1) = [- 3, 3]" "rd ?s2 (Ft_rhs, 0) = [2, 1]"
    by code_simp+
  have L: "rd dense_solve_example (tile 2 0 0) = [1, 2, 2, 1]"
    "rd dense_solve_example (tile 2 1 0) = [1, 1, 0, 1]"
    "rd dense_solve_example (tile 2 1 1) = [1, 7, 1, 1]"
    and b: "rd dense_solve_example (Ft_rhs, 0) = [1, 3]" "rd dense_solve_example (Ft_rhs, 1) = [2, 4]"
    by (simp_all add: rd_def tile_def dense_solve_example_def)
  have len: "2 \<le> length (store dense_solve_example Ft_rhs)"
    by (simp add: dense_solve_example_def)
  have nz: "\<forall>i<2. rd dense_solve_example (tile 2 k k) ! (i * 2 + i) \<noteq> 0" if "k < 2" for k
    using that L by (auto simp add: less_2_cases_iff)
  have k: "mkl_trsv_l adapter_mkl = (\<lambda>L a N. trsv L a N Blas_no_trans)"
    "mkl_gemv_l adapter_mkl = (\<lambda>A a b N. gemv A a b N N (- 1) Blas_no_trans)"
    by (simp_all add: adapter_mkl_def)
  have F: "(\<forall>k<2. \<forall>a. lower_apply 2 (rd dense_solve_example (tile 2 k k))
                (vec_of 2 (mkl_trsv_l adapter_mkl (rd dense_solve_example (tile 2 k k)) a 2))
              = vec_of 2 a)
         \<and> (\<forall>m<2. \<forall>k<m. \<forall>a c. vec_of 2 (mkl_gemv_l adapter_mkl
                (rd dense_solve_example (tile 2 m k)) a c 2)
              = vec_of 2 c - full_apply 2 (rd dense_solve_example (tile 2 m k)) (vec_of 2 a))"
    unfolding k
    by (intro conjI allI impI) (rule trsv_lower_solves [OF nz], assumption, rule gemv_subtracts)
  have D: "\<forall>k<2. \<forall>i<2. rd dense_solve_example (tile 2 k k) ! (i * 2 + i) \<noteq> 0"
    using nz by blast
  note inst = tiled_solves_block_substitution [where K = adapter_mkl and N = 2 and n = 2
      and s = dense_solve_example and sd = dense_solve_example and vec = "vec_of 2"
      and lower = "lower_apply 2" and full = "full_apply 2" and lowerT = "lowerT_apply 2"
      and fullT = "fullT_apply 2", unfolded Let_def]
  note part1 = inst [THEN conjunct1] and dense = inst [THEN conjunct2]
  note pattern = part1 [THEN conjunct2, THEN conjunct1]
  note forward = part1 [THEN conjunct2, THEN conjunct2, THEN conjunct2, THEN conjunct1, THEN mp,
      OF conjI [OF len F], rule_format]
  note backward = dense [THEN mp, OF conjI [OF len D], THEN conjunct2, rule_format]
  have i: "(1::nat) < 2" "(0::nat) < 2"
    by simp_all
  have one: "(\<Sum>j<1. g j) = g 0" "(\<Sum>k\<in>{Suc 0..<2}. g k) = g 1" for g :: "nat \<Rightarrow> rvec"
    by (simp_all add: numeral_2_eq_2)
  from forward [OF i(1)]
  have fw: "lower_apply 2 [1, 7, 1, 1] (vec_of 2 [0, 3])
        + full_apply 2 [1, 1, 0, 1] (vec_of 2 [1, 1]) = vec_of 2 [2, 4]"
    by (simp only: one L y b)
  from backward [OF i(2)]
  have bw: "lowerT_apply 2 [1, 2, 2, 1] (vec_of 2 [2, 1])
        + fullT_apply 2 [1, 1, 0, 1] (vec_of 2 [- 3, 3]) = vec_of 2 [1, 1]"
    by (simp only: one L y x)
  have "issued dense_solve_example @ forward_calls 2 @ backward_calls 2 =
       [Call Mkl_trsv_l [(Ft_tiles, 0), (Ft_rhs, 0)] (Ft_rhs, 0),
        Call Mkl_gemv_l [(Ft_tiles, 2), (Ft_rhs, 0), (Ft_rhs, 1)] (Ft_rhs, 1),
        Call Mkl_trsv_l [(Ft_tiles, 3), (Ft_rhs, 1)] (Ft_rhs, 1),
        Call Mkl_trsv_u [(Ft_tiles, 3), (Ft_rhs, 1)] (Ft_rhs, 1),
        Call Mkl_gemv_u [(Ft_tiles, 2), (Ft_rhs, 1), (Ft_rhs, 0)] (Ft_rhs, 0),
        Call Mkl_trsv_u [(Ft_tiles, 0), (Ft_rhs, 0)] (Ft_rhs, 0)]"
    by (simp add: dense_solve_example_def forward_calls_def backward_calls_def tile_def
        upt_conv_Cons numeral_2_eq_2)
  with pattern have pat: "issued ?s2 =
       [Call Mkl_trsv_l [(Ft_tiles, 0), (Ft_rhs, 0)] (Ft_rhs, 0),
        Call Mkl_gemv_l [(Ft_tiles, 2), (Ft_rhs, 0), (Ft_rhs, 1)] (Ft_rhs, 1),
        Call Mkl_trsv_l [(Ft_tiles, 3), (Ft_rhs, 1)] (Ft_rhs, 1),
        Call Mkl_trsv_u [(Ft_tiles, 3), (Ft_rhs, 1)] (Ft_rhs, 1),
        Call Mkl_gemv_u [(Ft_tiles, 2), (Ft_rhs, 1), (Ft_rhs, 0)] (Ft_rhs, 0),
        Call Mkl_trsv_u [(Ft_tiles, 0), (Ft_rhs, 0)] (Ft_rhs, 0)]"
    by simp
  show ?thesis
    by (intro conjI y x pat fw bw)
qed

end
